theory Spec2Isabelle
  imports Main "HOL-Library.Monad_Syntax"
begin

section \<open>Data model of snake.c\<close>

text \<open>
  The C \<open>int\<close> values of the program (coordinates, lengths, the score, the board
  dimensions) are integers. The products of the board dimensions (\<open>board_width *
  board_height\<close> in \<open>init_game\<close> and \<open>generate_food\<close>, and \<open>total_cells * 2\<close> in
  \<open>generate_food\<close>) can leave the range of a 32-bit \<open>int\<close> on boards that the command
  line accepts; there the wrap-around is written out (\<open>c_int\<close>). Every other
  arithmetic step moves a coordinate of the board by one, counts up to one of these
  products, or adds 10 to the score. Flags that only ever hold 0 or 1
  (\<open>game_over\<close>, \<open>paused\<close>, \<open>wraparound_mode\<close>, \<open>emoji_mode\<close>) are booleans.
  The field \<open>direction\<close> is declared \<open>int\<close> but only ever assigned one of the four
  enumerators of \<open>enum Direction\<close>, so it is a datatype. The fields \<open>x\<close>, \<open>y\<close> of
  \<open>Point\<close> are called \<open>px\<close>, \<open>py\<close>, and \<open>length\<close> of \<open>Snake\<close> is \<open>length_s\<close>.
\<close>

datatype GameMode = MODE_REGULAR | MODE_GREEDY

record Config =
  board_width :: int
  board_height :: int
  render_fps :: int
  move_fps :: int
  render_interval :: int
  move_interval :: int
  wraparound_mode :: bool
  emoji_mode :: bool
  game_mode :: GameMode

record Point =
  px :: int
  py :: int

datatype Direction = UP | DOWN | LEFT | RIGHT

text \<open>
  \<open>body\<close> is the whole buffer returned by \<open>malloc\<close>, not only the occupied prefix:
  its size is the allocation size, and the slots at index \<open>length_s\<close> and beyond hold
  whatever the memory held.
\<close>

record Snake =
  body :: "Point list"
  length_s :: int
  max_length :: int
  direction :: Direction

record Game =
  food :: Point
  snake :: Snake
  score :: int
  game_over :: bool
  paused :: bool

text \<open>The global \<open>config\<close> with its initialiser.\<close>

definition config :: Config where
  "config =
     \<lparr>board_width = 40, board_height = 20, render_fps = 30, move_fps = 6,
      render_interval = 33333, move_interval = 166667,
      wraparound_mode = False, emoji_mode = False, game_mode = MODE_REGULAR\<rparr>"

text \<open>The segments of the snake: the first \<open>length\<close> slots of the buffer, head first.\<close>

definition segments :: "Game \<Rightarrow> Point list" where
  "segments g = take (nat (length_s (snake g))) (body (snake g))"

definition MICROSECONDS_PER_SECOND :: int where
  "MICROSECONDS_PER_SECOND = 1000000"

definition TERMINAL_WIDTH_MARGIN :: int where
  "TERMINAL_WIDTH_MARGIN = 4"

definition TERMINAL_HEIGHT_MARGIN :: int where
  "TERMINAL_HEIGHT_MARGIN = 6"

definition POINTS_PER_FOOD :: int where
  "POINTS_PER_FOOD = 10"

definition FOOD_PLACEMENT_MAX_ATTEMPTS_MULTIPLIER :: int where
  "FOOD_PLACEMENT_MAX_ATTEMPTS_MULTIPLIER = 2"

section \<open>C arithmetic and buffer accesses\<close>

text \<open>C's \<open>/\<close> truncates towards zero and \<open>%\<close> takes the sign of the dividend.\<close>

definition c_div :: "int \<Rightarrow> int \<Rightarrow> int" where
  "c_div a b = (if (a < 0) = (b < 0) then \<bar>a\<bar> div \<bar>b\<bar> else - (\<bar>a\<bar> div \<bar>b\<bar>))"

definition c_mod :: "int \<Rightarrow> int \<Rightarrow> int" where
  "c_mod a b = a - b * c_div a b"

text \<open>
  The value that a 32-bit two's complement \<open>int\<close> holds when the exact result of an
  \<open>int\<close> operation is \<open>v\<close>.
\<close>

definition c_int :: "int \<Rightarrow> int" where
  "c_int v = (v + 2147483648) mod 4294967296 - 2147483648"

text \<open>
  Every access \<open>body[i]\<close> is checked against the allocation: an index outside the
  buffer is undefined behaviour in C, and is the result \<open>None\<close> of the model. All
  functions that touch the buffer return an option for that reason.
\<close>

definition rd :: "Point list \<Rightarrow> int \<Rightarrow> Point option" where
  "rd buf i = (if 0 \<le> i \<and> i < int (length buf) then Some (buf ! nat i) else None)"

definition wr :: "Point list \<Rightarrow> int \<Rightarrow> Point \<Rightarrow> Point list option" where
  "wr buf i p = (if 0 \<le> i \<and> i < int (length buf) then Some (buf[nat i := p]) else None)"

section \<open>Timing\<close>

definition calculate_intervals :: "Config \<Rightarrow> Config" where
  "calculate_intervals cfg =
     cfg\<lparr>render_interval := c_div MICROSECONDS_PER_SECOND (render_fps cfg),
         move_interval := c_div MICROSECONDS_PER_SECOND (move_fps cfg)\<rparr>"

text \<open>
  The comparison \<open>elapsed_us - last >= interval\<close> that \<open>main\<close> writes twice, once for
  the move tick and once for the render tick.
\<close>

definition tick_due :: "int \<Rightarrow> int \<Rightarrow> int \<Rightarrow> bool" where
  "tick_due now last_fired interval = (now - last_fired \<ge> interval)"

section \<open>Initialisation\<close>

text \<open>
  \<open>get_terminal_size\<close>: the result of the \<open>ioctl\<close> is the parameter \<open>ws\<close>
  (\<open>None\<close> when it fails, otherwise the unsigned \<open>ws_col\<close> and \<open>ws_row\<close>); the globals
  \<open>override_width\<close> and \<open>override_height\<close> are parameters too.
\<close>

definition get_terminal_size :: "(nat \<times> nat) option \<Rightarrow> int \<Rightarrow> int \<Rightarrow> Config \<Rightarrow> Config" where
  "get_terminal_size ws override_width override_height cfg =
     (case ws of
        Some (ws_col, ws_row) \<Rightarrow>
          (let cfg1 =
                 (if override_width = 0 then
                    (let c = cfg\<lparr>board_width := int ws_col - TERMINAL_WIDTH_MARGIN\<rparr>
                     in if emoji_mode c then c\<lparr>board_width := c_div (board_width c) 2\<rparr> else c)
                  else cfg\<lparr>board_width := override_width\<rparr>)
           in if override_height = 0
              then cfg1\<lparr>board_height := int ws_row - TERMINAL_HEIGHT_MARGIN\<rparr>
              else cfg1\<lparr>board_height := override_height\<rparr>)
      | None \<Rightarrow>
          (let cfg1 = (if override_width > 0 then cfg\<lparr>board_width := override_width\<rparr> else cfg)
           in if override_height > 0 then cfg1\<lparr>board_height := override_height\<rparr> else cfg1))"

text \<open>
  The cell that the two statements \<open>food.x = rand() % board_width; food.y = rand() %
  board_height\<close> produce when \<open>k\<close> calls of \<open>rand()\<close> have been made before.
\<close>

definition sampled_cell :: "Config \<Rightarrow> (nat \<Rightarrow> nat) \<Rightarrow> nat \<Rightarrow> Point" where
  "sampled_cell cfg rnd k =
     \<lparr>px = c_mod (int (rnd k)) (board_width cfg),
      py = c_mod (int (rnd (k + 1))) (board_height cfg)\<rparr>"

text \<open>
  \<open>init_game\<close>. \<open>mem\<close> is the content of the memory that \<open>malloc\<close> returns (it is not
  initialised), \<open>rnd\<close> the sequence of values that \<open>rand()\<close> returns after
  \<open>srand(time(NULL))\<close>. The result holds the configuration as \<open>get_terminal_size\<close>
  left it, the game, and the number of calls of \<open>rand()\<close> made so far.
\<close>

definition init_game ::
  "(nat \<times> nat) option \<Rightarrow> int \<Rightarrow> int \<Rightarrow> (nat \<Rightarrow> Point) \<Rightarrow> (nat \<Rightarrow> nat) \<Rightarrow> Config
     \<Rightarrow> (Config \<times> Game \<times> nat) option" where
  "init_game ws override_width override_height mem rnd cfg0 =
     (let cfg = get_terminal_size ws override_width override_height cfg0;
          max_possible_length = c_int (board_width cfg * board_height cfg);
          b = map mem [0..<nat max_possible_length];
          head = \<lparr>px = c_div (board_width cfg) 2, py = c_div (board_height cfg) 2\<rparr>
      in do {
        b0 \<leftarrow> wr b 0 head;
        h0 \<leftarrow> rd b0 0;
        b1 \<leftarrow> wr b0 1 \<lparr>px = px h0 - 1, py = py h0\<rparr>;
        h1 \<leftarrow> rd b1 0;
        b2 \<leftarrow> wr b1 2 \<lparr>px = px h1 - 2, py = py h1\<rparr>;
        Some (cfg,
              \<lparr>food = sampled_cell cfg rnd 0,
               snake = \<lparr>body = b2, length_s = 3, max_length = max_possible_length,
                        direction = RIGHT\<rparr>,
               score = 0, game_over = False, paused = False\<rparr>,
              2)
      })"

section \<open>Rendering\<close>

text \<open>
  \<open>draw_board\<close> prints one glyph per cell; which spelling of the glyph is printed
  (ASCII or emoji) depends on \<open>emoji_mode\<close> only and is left out.
\<close>

datatype Glyph = Wall | Snake_Head | Snake_Body | Food_Glyph | Empty_Cell

text \<open>
  The inner loop over the segments, from index \<open>i\<close>, followed by the food test that
  runs when no segment was found.
\<close>

function cell_scan :: "Game \<Rightarrow> int \<Rightarrow> int \<Rightarrow> int \<Rightarrow> Glyph option" where
  "cell_scan g cx cy i =
     (if i < length_s (snake g) then
        (case rd (body (snake g)) i of
           None \<Rightarrow> None
         | Some q \<Rightarrow>
             if px q = cx \<and> py q = cy
             then Some (if i = 0 then Snake_Head else Snake_Body)
             else cell_scan g cx cy (i + 1))
      else Some (if px (food g) = cx \<and> py (food g) = cy then Food_Glyph else Empty_Cell))"
  by pat_completeness auto
termination
  by (relation "measure (\<lambda>(g, cx, cy, i). nat (length_s (snake g) - i))") auto

declare cell_scan.simps [simp del]

definition draw_cell :: "Game \<Rightarrow> Config \<Rightarrow> int \<Rightarrow> int \<Rightarrow> Glyph option" where
  "draw_cell g cfg cx cy =
     (if cx = -1 \<or> cx = board_width cfg \<or> cy = -1 \<or> cy = board_height cfg
      then Some Wall
      else cell_scan g cx cy 0)"

fun sequence_opt :: "'a option list \<Rightarrow> 'a list option" where
  "sequence_opt [] = Some []"
| "sequence_opt (x # xs) =
     (case x of None \<Rightarrow> None
      | Some v \<Rightarrow> (case sequence_opt xs of None \<Rightarrow> None | Some vs \<Rightarrow> Some (v # vs)))"

text \<open>
  A frame as \<open>draw_board\<close> prints it: the score line (with the paused indicator when
  the game is paused), then the rows of the board with its border. The hint line below
  the board is constant text.
\<close>

record Frame =
  shown_score :: int
  shown_paused :: bool
  shown_cells :: "Glyph list list"

definition draw_board :: "Game \<Rightarrow> Config \<Rightarrow> Frame option" where
  "draw_board g cfg =
     (case sequence_opt
             (map (\<lambda>cy. sequence_opt (map (\<lambda>cx. draw_cell g cfg cx cy) [-1..board_width cfg]))
                  [-1..board_height cfg]) of
        None \<Rightarrow> None
      | Some rows \<Rightarrow>
          Some \<lparr>shown_score = score g, shown_paused = paused g, shown_cells = rows\<rparr>)"

section \<open>Food placement\<close>

text \<open>
  The occupancy loops of \<open>generate_food\<close> (from index 0) and of \<open>move_snake\<close> (from
  index 1) have the same shape: run over the segments from \<open>i\<close> up to \<open>n - 1\<close> and stop
  at the first one that equals \<open>p\<close>.
\<close>

function hits :: "Point list \<Rightarrow> int \<Rightarrow> Point \<Rightarrow> int \<Rightarrow> bool option" where
  "hits buf n p i =
     (if i < n then
        (case rd buf i of
           None \<Rightarrow> None
         | Some q \<Rightarrow> if px q = px p \<and> py q = py p then Some True else hits buf n p (i + 1))
      else Some False)"
  by pat_completeness auto
termination
  by (relation "measure (\<lambda>(buf, n, p, i). nat (n - i))") auto

declare hits.simps [simp del]

text \<open>
  The \<open>while\<close> loop of \<open>generate_food\<close>, with its locals \<open>valid\<close> and \<open>attempts\<close>;
  \<open>k\<close> counts the calls of \<open>rand()\<close>.
\<close>

function food_loop ::
  "Config \<Rightarrow> (nat \<Rightarrow> nat) \<Rightarrow> int \<Rightarrow> Game \<Rightarrow> nat \<Rightarrow> bool \<Rightarrow> int \<Rightarrow> (Game \<times> nat \<times> bool \<times> int) option" where
  "food_loop cfg rnd total_cells g k valid attempts =
     (if \<not> valid \<and> attempts < c_int (total_cells * FOOD_PLACEMENT_MAX_ATTEMPTS_MULTIPLIER) then
        (let g' = g\<lparr>food := sampled_cell cfg rnd k\<rparr>
         in case hits (body (snake g')) (length_s (snake g')) (food g') 0 of
              None \<Rightarrow> None
            | Some occupied \<Rightarrow>
                food_loop cfg rnd total_cells g' (k + 2) (\<not> occupied) (attempts + 1))
      else Some (g, k, valid, attempts))"
  by pat_completeness auto
termination
  by (relation "measure (\<lambda>(cfg, rnd, total_cells, g, k, valid, attempts).
                  nat (c_int (total_cells * FOOD_PLACEMENT_MAX_ATTEMPTS_MULTIPLIER) - attempts))")
     auto

declare food_loop.simps [simp del]

definition generate_food :: "Config \<Rightarrow> (nat \<Rightarrow> nat) \<Rightarrow> Game \<times> nat \<Rightarrow> (Game \<times> nat) option" where
  "generate_food cfg rnd gk =
     (case gk of (g, k) \<Rightarrow>
        (let total_cells = c_int (board_width cfg * board_height cfg)
         in if length_s (snake g) \<ge> total_cells then Some (g\<lparr>game_over := True\<rparr>, k)
            else
              (case food_loop cfg rnd total_cells g k False 0 of
                 None \<Rightarrow> None
               | Some (g', k', valid, attempts) \<Rightarrow>
                   if \<not> valid then Some (g'\<lparr>game_over := True\<rparr>, k') else Some (g', k'))))"

section \<open>Movement\<close>

text \<open>The \<open>switch\<close> on the direction.\<close>

fun advance :: "Direction \<Rightarrow> Point \<Rightarrow> Point" where
  "advance UP p = p\<lparr>py := py p - 1\<rparr>"
| "advance DOWN p = p\<lparr>py := py p + 1\<rparr>"
| "advance LEFT p = p\<lparr>px := px p - 1\<rparr>"
| "advance RIGHT p = p\<lparr>px := px p + 1\<rparr>"

text \<open>The two \<open>if\<close>/\<open>else if\<close> chains of the wraparound branch.\<close>

definition wrap :: "Config \<Rightarrow> Point \<Rightarrow> Point" where
  "wrap cfg p =
     (let p1 = (if px p < 0 then p\<lparr>px := board_width cfg - 1\<rparr>
                else if px p \<ge> board_width cfg then p\<lparr>px := 0\<rparr> else p)
      in if py p1 < 0 then p1\<lparr>py := board_height cfg - 1\<rparr>
         else if py p1 \<ge> board_height cfg then p1\<lparr>py := 0\<rparr> else p1)"

text \<open>The wall test of the branch without wraparound.\<close>

definition off_board :: "Config \<Rightarrow> Point \<Rightarrow> bool" where
  "off_board cfg p =
     (px p < 0 \<or> px p \<ge> board_width cfg \<or> py p < 0 \<or> py p \<ge> board_height cfg)"

text \<open>
  The shift loop of the regular branch, \<open>for (i = length - 1; i > 0; i--) body[i] =
  body[i - 1]\<close>, and of the greedy branch, \<open>for (i = length - 1; i >= 0; i--)
  body[i + 1] = body[i]\<close>, each started at its first index.
\<close>

function shift_regular :: "Point list \<Rightarrow> int \<Rightarrow> Point list option" where
  "shift_regular buf i =
     (if i > 0 then
        (case rd buf (i - 1) of
           None \<Rightarrow> None
         | Some q \<Rightarrow>
             (case wr buf i q of
                None \<Rightarrow> None
              | Some buf' \<Rightarrow> shift_regular buf' (i - 1)))
      else Some buf)"
  by pat_completeness auto
termination
  by (relation "measure (\<lambda>(buf, i). nat i)") auto

declare shift_regular.simps [simp del]

function shift_greedy :: "Point list \<Rightarrow> int \<Rightarrow> Point list option" where
  "shift_greedy buf i =
     (if i \<ge> 0 then
        (case rd buf i of
           None \<Rightarrow> None
         | Some q \<Rightarrow>
             (case wr buf (i + 1) q of
                None \<Rightarrow> None
              | Some buf' \<Rightarrow> shift_greedy buf' (i - 1)))
      else Some buf)"
  by pat_completeness auto
termination
  by (relation "measure (\<lambda>(buf, i). nat (i + 1))") auto

declare shift_greedy.simps [simp del]

text \<open>
  \<open>move_snake\<close> from the computation of \<open>ate_food\<close> on, for the new head that the
  first half has computed.
\<close>

definition move_to :: "Config \<Rightarrow> (nat \<Rightarrow> nat) \<Rightarrow> Game \<times> nat \<Rightarrow> Point \<Rightarrow> (Game \<times> nat) option" where
  "move_to cfg rnd gk new_head =
     (case gk of (g, k) \<Rightarrow>
        (let ate_food = (px new_head = px (food g) \<and> py new_head = py (food g));
             s = snake g
         in case hits (body s) (length_s s) new_head 1 of
              None \<Rightarrow> None
            | Some True \<Rightarrow> Some (g\<lparr>game_over := True\<rparr>, k)
            | Some False \<Rightarrow>
                if game_mode cfg = MODE_GREEDY then
                  (if length_s s \<ge> max_length s then Some (g\<lparr>game_over := True\<rparr>, k)
                   else do {
                     b1 \<leftarrow> shift_greedy (body s) (length_s s - 1);
                     b2 \<leftarrow> wr b1 0 new_head;
                     let g1 = g\<lparr>snake := s\<lparr>body := b2, length_s := length_s s + 1\<rparr>\<rparr>;
                     if ate_food
                     then generate_food cfg rnd (g1\<lparr>score := score g1 + POINTS_PER_FOOD\<rparr>, k)
                     else Some (g1, k)
                   })
                else do {
                  b1 \<leftarrow> shift_regular (body s) (length_s s - 1);
                  b2 \<leftarrow> wr b1 0 new_head;
                  let g1 = g\<lparr>snake := s\<lparr>body := b2\<rparr>\<rparr>;
                  if ate_food
                  then generate_food cfg rnd
                         (g1\<lparr>snake := (snake g1)\<lparr>length_s := length_s (snake g1) + 1\<rparr>,
                             score := score g1 + POINTS_PER_FOOD\<rparr>, k)
                  else Some (g1, k)
                }))"

definition move_snake :: "Config \<Rightarrow> (nat \<Rightarrow> nat) \<Rightarrow> Game \<times> nat \<Rightarrow> (Game \<times> nat) option" where
  "move_snake cfg rnd gk =
     (case gk of (g, k) \<Rightarrow>
        do {
          head \<leftarrow> rd (body (snake g)) 0;
          let new_head = advance (direction (snake g)) head;
          if wraparound_mode cfg then move_to cfg rnd (g, k) (wrap cfg new_head)
          else if off_board cfg new_head then Some (g\<lparr>game_over := True\<rparr>, k)
          else move_to cfg rnd (g, k) new_head
        })"

text \<open>
  The position that \<open>move_snake\<close> holds in \<open>new_head\<close> when it reaches the wall test
  (without wraparound) or has wrapped it (with wraparound).
\<close>

definition new_head :: "Config \<Rightarrow> Game \<Rightarrow> Point option" where
  "new_head cfg g =
     do {
       head \<leftarrow> rd (body (snake g)) 0;
       let p = advance (direction (snake g)) head;
       Some (if wraparound_mode cfg then wrap cfg p else p)
     }"

section \<open>Input\<close>

text \<open>
  The eight guarded assignments of \<open>handle_input\<close> all have the form
  \<open>if (direction != opposite of d) direction = d\<close>.
\<close>

fun opposite :: "Direction \<Rightarrow> Direction" where
  "opposite UP = DOWN"
| "opposite DOWN = UP"
| "opposite LEFT = RIGHT"
| "opposite RIGHT = LEFT"

definition set_direction :: "Direction \<Rightarrow> Game \<Rightarrow> Game" where
  "set_direction d g =
     (if direction (snake g) \<noteq> opposite d then g\<lparr>snake := (snake g)\<lparr>direction := d\<rparr>\<rparr> else g)"

text \<open>
  \<open>handle_input\<close> on the bytes that standard input holds when it is called:
  \<open>kbhit()\<close> is true when a byte is there, \<open>getchar()\<close> takes the first one. The
  result holds the bytes that were not consumed.
\<close>

definition handle_input :: "char list \<Rightarrow> Game \<Rightarrow> Game \<times> char list" where
  "handle_input inp g =
     (case inp of
        [] \<Rightarrow> (g, [])
      | c # r1 \<Rightarrow>
          if c = CHR 0x1B then
            (case r1 of
               [] \<Rightarrow> (g, [])
             | seq1 # r2 \<Rightarrow>
                 (case r2 of
                    [] \<Rightarrow> (g, [])
                  | seq2 # r3 \<Rightarrow>
                      if seq1 = CHR ''['' then
                        (if seq2 = CHR ''A'' then (set_direction UP g, r3)
                         else if seq2 = CHR ''B'' then (set_direction DOWN g, r3)
                         else if seq2 = CHR ''C'' then (set_direction RIGHT g, r3)
                         else if seq2 = CHR ''D'' then (set_direction LEFT g, r3)
                         else (g, r3))
                      else (g, r2)))
          else if c = CHR ''w'' \<or> c = CHR ''W'' then (set_direction UP g, r1)
          else if c = CHR ''s'' \<or> c = CHR ''S'' then (set_direction DOWN g, r1)
          else if c = CHR ''a'' \<or> c = CHR ''A'' then (set_direction LEFT g, r1)
          else if c = CHR ''d'' \<or> c = CHR ''D'' then (set_direction RIGHT g, r1)
          else if c = CHR ''q'' \<or> c = CHR ''Q'' then (g\<lparr>game_over := True\<rparr>, r1)
          else if c = CHR '' '' then (g\<lparr>paused := \<not> paused g\<rparr>, r1)
          else (g, r1))"

section \<open>The main loop\<close>

text \<open>
  The locals of \<open>main\<close> that live across iterations, with the state of the random
  number generator and the unread bytes of standard input.
\<close>

record Main_Loop =
  game :: Game
  rand_calls :: nat
  last_render :: int
  last_move :: int
  stdin :: "char list"

text \<open>
  One iteration of the \<open>while\<close> loop at clock reading \<open>elapsed_us\<close>. Besides the new
  state it reports what the iteration did: the direction with which \<open>move_snake\<close> was
  called (when the move tick fired) and the frame drawn (when the render tick fired).
\<close>

definition loop_body ::
  "Config \<Rightarrow> (nat \<Rightarrow> nat) \<Rightarrow> int \<Rightarrow> Main_Loop
     \<Rightarrow> (Main_Loop \<times> Direction option \<times> Frame option) option" where
  "loop_body cfg rnd elapsed_us s =
     (case handle_input (stdin s) (game s) of (g1, rest) \<Rightarrow>
        do {
          (g2, k2, lm, moved) \<leftarrow>
            (if tick_due elapsed_us (last_move s) (move_interval cfg) \<and> \<not> paused g1 then
               do {
                 (g, k) \<leftarrow> move_snake cfg rnd (g1, rand_calls s);
                 Some (g, k, elapsed_us, Some (direction (snake g1)))
               }
             else Some (g1, rand_calls s, last_move s, None));
          (frame, lr) \<leftarrow>
            (if tick_due elapsed_us (last_render s) (render_interval cfg) then
               do { f \<leftarrow> draw_board g2 cfg; Some (Some f, elapsed_us) }
             else Some (None, last_render s));
          Some (\<lparr>game = g2, rand_calls = k2, last_render = lr, last_move = lm, stdin = rest\<rparr>,
                moved, frame)
        })"

text \<open>
  The \<open>while (!game.game_over)\<close> loop over a finite schedule: each entry is the clock
  reading of one iteration and the bytes that arrived on standard input since the
  previous one. The result is the final state and the directions of the move ticks, in
  order.
\<close>

fun main_loop ::
  "Config \<Rightarrow> (nat \<Rightarrow> nat) \<Rightarrow> (int \<times> char list) list \<Rightarrow> Main_Loop
     \<Rightarrow> (Main_Loop \<times> Direction list) option" where
  "main_loop cfg rnd [] s = Some (s, [])"
| "main_loop cfg rnd ((elapsed_us, arrived) # es) s =
     (if game_over (game s) then Some (s, [])
      else
        (case loop_body cfg rnd elapsed_us (s\<lparr>stdin := stdin s @ arrived\<rparr>) of
           None \<Rightarrow> None
         | Some (s', moved, frame) \<Rightarrow>
             (case main_loop cfg rnd es s' of
                None \<Rightarrow> None
              | Some (s'', ds) \<Rightarrow>
                  Some (s'', (case moved of None \<Rightarrow> ds | Some d \<Rightarrow> d # ds)))))"

section \<open>States of a running game\<close>

text \<open>
  What \<open>init_game\<close> establishes and the moves keep while the game runs: the buffer
  has one slot per cell of the board, \<open>max_length\<close> is the number of cells, and the
  snake has between one and \<open>max_length\<close> segments.
\<close>

definition well_formed :: "Config \<Rightarrow> Game \<Rightarrow> bool" where
  "well_formed cfg g =
     (max_length (snake g) = board_width cfg * board_height cfg \<and>
      int (length (body (snake g))) = max_length (snake g) \<and>
      1 \<le> length_s (snake g) \<and> length_s (snake g) \<le> max_length (snake g))"

text \<open>
  The slots of the buffer from index \<open>length\<close> on still hold the content \<open>mem\<close> that
  the memory had when \<open>malloc\<close> returned it.
\<close>

definition uninitialised_beyond :: "(nat \<Rightarrow> Point) \<Rightarrow> Game \<Rightarrow> bool" where
  "uninitialised_beyond mem g =
     (drop (nat (length_s (snake g))) (body (snake g))
        = map mem [nat (length_s (snake g))..<length (body (snake g))])"

text \<open>
  The same with the number of cells as \<open>init_game\<close> computes it; the two agree on
  every board whose number of cells fits an \<open>int\<close>.
\<close>

definition allocated :: "Config \<Rightarrow> Game \<Rightarrow> bool" where
  "allocated cfg g =
     (max_length (snake g) = c_int (board_width cfg * board_height cfg) \<and>
      int (length (body (snake g))) = max_length (snake g) \<and>
      1 \<le> length_s (snake g) \<and> length_s (snake g) \<le> max_length (snake g))"

text \<open>What every iteration of the main loop keeps in regular mode.\<close>

definition loop_invariant :: "Config \<Rightarrow> (nat \<Rightarrow> Point) \<Rightarrow> Main_Loop \<Rightarrow> bool" where
  "loop_invariant cfg mem s =
     (uninitialised_beyond mem (game s) \<and> (\<not> game_over (game s) \<longrightarrow> allocated cfg (game s)))"

section \<open>Concrete games\<close>

text \<open>
  A snake of four segments coiled on a board of two by two cells, heading right
  towards the cell of its own tail.
\<close>

definition coiled_cfg :: Config where
  "coiled_cfg = config\<lparr>board_width := 2, board_height := 2\<rparr>"

definition coiled :: Game where
  "coiled =
     \<lparr>food = \<lparr>px = 0, py = 1\<rparr>,
      snake = \<lparr>body = [\<lparr>px = 0, py = 0\<rparr>, \<lparr>px = 0, py = 1\<rparr>, \<lparr>px = 1, py = 1\<rparr>, \<lparr>px = 1, py = 0\<rparr>],
               length_s = 4, max_length = 4, direction = RIGHT\<rparr>,
      score = 30, game_over = False, paused = False\<rparr>"

text \<open>
  The game as \<open>init_game\<close> leaves it with \<open>-w 6 -h 1\<close>, when the allocated memory
  holds zeros and the first call of \<open>rand()\<close> returns 4: the food lies right in front
  of the head.
\<close>

definition row_cfg :: Config where
  "row_cfg = config\<lparr>board_width := 6, board_height := 1\<rparr>"

definition row :: Game where
  "row =
     \<lparr>food = \<lparr>px = 4, py = 0\<rparr>,
      snake = \<lparr>body = [\<lparr>px = 3, py = 0\<rparr>, \<lparr>px = 2, py = 0\<rparr>, \<lparr>px = 1, py = 0\<rparr>,
                       \<lparr>px = 0, py = 0\<rparr>, \<lparr>px = 0, py = 0\<rparr>, \<lparr>px = 0, py = 0\<rparr>],
               length_s = 3, max_length = 6, direction = RIGHT\<rparr>,
      score = 0, game_over = False, paused = False\<rparr>"

text \<open>
  The buffer after the shift loop and the write of the new head \<open>p\<close>, in closed
  form: of the regular branch (the last segment is dropped, the slots from \<open>length\<close>
  on are not touched) and of the greedy branch (all segments are kept, the slot at
  \<open>length\<close> is overwritten).
\<close>

definition moved_body :: "Point \<Rightarrow> Game \<Rightarrow> Point list" where
  "moved_body p g =
     p # take (nat (length_s (snake g)) - 1) (body (snake g))
       @ drop (nat (length_s (snake g))) (body (snake g))"


section \<open>Arithmetic and loops in closed form\<close>

lemma c_div_nonneg: "0 \<le> a \<Longrightarrow> 0 < b \<Longrightarrow> c_div a b = a div b"
  by (simp add: c_div_def)

lemma c_mod_nonneg: "0 \<le> a \<Longrightarrow> 0 < b \<Longrightarrow> c_mod a b = a mod b"
  by (simp add: c_mod_def c_div_nonneg minus_mult_div_eq_mod)

lemma c_int_id: "- 2147483648 \<le> v \<Longrightarrow> v \<le> 2147483647 \<Longrightarrow> c_int v = v"
  by (simp add: c_int_def)

lemma c_int_le: "0 \<le> v \<Longrightarrow> c_int v \<le> v"
proof -
  assume "0 \<le> v"
  then have "(v + 2147483648) mod 4294967296 \<le> v + 2147483648"
    by (intro zmod_le_nonneg_dividend) simp
  then show ?thesis by (simp add: c_int_def)
qed

lemma c_int_upper: "c_int v \<le> 2147483647"
proof -
  have "(v + 2147483648) mod 4294967296 < 4294967296" by simp
  then show ?thesis unfolding c_int_def by linarith
qed

lemma Point_eq_iff: "(p = (q::Point)) = (px p = px q \<and> py p = py q)"
  by auto

lemma hits_set:
  "0 \<le> i \<Longrightarrow> n \<le> int (length buf) \<Longrightarrow>
   hits buf n p i = Some (p \<in> set (drop (nat i) (take (nat n) buf)))"
proof (induction buf n p i rule: hits.induct)
  case (1 buf n p i)
  show ?case
  proof (cases "i < n")
    case False
    then show ?thesis by (simp add: hits.simps)
  next
    case True
    with "1.prems" have r: "rd buf i = Some (buf ! nat i)"
      by (simp add: rd_def)
    from True "1.prems" have "nat i < length (take (nat n) buf)" by simp
    then have "drop (nat i) (take (nat n) buf)
               = take (nat n) buf ! nat i # drop (Suc (nat i)) (take (nat n) buf)"
      by (rule Cons_nth_drop_Suc [symmetric])
    moreover from True "1.prems" have "take (nat n) buf ! nat i = buf ! nat i" by simp
    moreover from "1.prems" have "Suc (nat i) = nat (i + 1)" by simp
    ultimately have d: "drop (nat i) (take (nat n) buf)
               = buf ! nat i # drop (nat (i + 1)) (take (nat n) buf)" by simp
    show ?thesis
    proof (cases "px (buf ! nat i) = px p \<and> py (buf ! nat i) = py p")
      case True
      then have "buf ! nat i = p" by (simp add: Point_eq_iff)
      with True \<open>i < n\<close> r d show ?thesis
        by (subst hits.simps) simp
    next
      case False
      then have ne: "buf ! nat i \<noteq> p" by (auto simp: Point_eq_iff)
      from False \<open>i < n\<close> r have "hits buf n p i = hits buf n p (i + 1)"
        by (subst hits.simps) auto
      also have "\<dots> = Some (p \<in> set (drop (nat (i + 1)) (take (nat n) buf)))"
        using "1.IH"[OF \<open>i < n\<close> r False] "1.prems" by simp
      finally show ?thesis using d ne by auto
    qed
  qed
qed

lemma shift_regular_closed:
  "0 \<le> i \<Longrightarrow> i < int (length buf) \<Longrightarrow>
   shift_regular buf i = Some (take 1 buf @ take (nat i) buf @ drop (Suc (nat i)) buf)"
proof (induction buf i rule: shift_regular.induct)
  case (1 buf i)
  show ?case
  proof (cases "i > 0")
    case False
    with "1.prems" have "i = 0" by simp
    moreover from "1.prems" have "buf \<noteq> []" by auto
    then have "take 1 buf @ drop (Suc 0) buf = buf"
      by (metis One_nat_def append_take_drop_id)
    ultimately show ?thesis by (simp add: shift_regular.simps)
  next
    case True
    define j where "j = nat (i - 1)"
    from True "1.prems" have j: "nat i = Suc j" "j < length buf" "Suc j < length buf"
      by (simp_all add: j_def)
    from True "1.prems" have r: "rd buf (i - 1) = Some (buf ! j)"
      by (simp add: rd_def j_def)
    from True "1.prems" have w: "wr buf i (buf ! j) = Some (buf[Suc j := buf ! j])"
      using j by (simp add: wr_def)
    let ?b = "buf[Suc j := buf ! j]"
    have "shift_regular buf i = shift_regular ?b (i - 1)"
      using True r w by (subst shift_regular.simps) simp
    also have "\<dots> = Some (take 1 ?b @ take (nat (i - 1)) ?b @ drop (Suc (nat (i - 1))) ?b)"
      using "1.IH"[OF True r w] True "1.prems" by simp
    also have "take 1 ?b = take 1 buf" by simp
    also have "take (nat (i - 1)) ?b = take j buf" by (simp add: j_def)
    also have "drop (Suc (nat (i - 1))) ?b = buf ! j # drop (Suc (Suc j)) buf"
      using j by (simp add: j_def [symmetric] Cons_nth_drop_Suc [symmetric] upd_conv_take_nth_drop)
    also have "take j buf @ buf ! j # drop (Suc (Suc j)) buf = take (nat i) buf @ drop (Suc (nat i)) buf"
      using j by (simp add: take_Suc_conv_app_nth)
    finally show ?thesis .
  qed
qed



section \<open>Food placement\<close>

lemma hits_segments:
  "length_s (snake g) \<le> int (length (body (snake g))) \<Longrightarrow>
   hits (body (snake g)) (length_s (snake g)) p 0 = Some (p \<in> set (segments g))"
  by (simp add: hits_set segments_def)

lemma food_loop_Some:
  assumes "length_s (snake g) \<le> int (length (body (snake g)))"
  shows "\<exists>g' k' v a. food_loop cfg rnd T g k valid attempts = Some (g', k', v, a) \<and>
      g' = g\<lparr>food := food g'\<rparr> \<and> attempts \<le> a \<and> (attempts < a \<longrightarrow> a \<le> c_int (T * 2)) \<and>
      int k' = int k + 2 * (a - attempts) \<and>
      (valid \<longrightarrow> a = attempts \<and> v) \<and> (a = attempts \<longrightarrow> g' = g) \<and>
      (v \<longrightarrow> valid \<or> food g' \<notin> set (segments g)) \<and>
      (\<not> v \<longrightarrow> c_int (T * 2) \<le> a \<and> (attempts < a \<longrightarrow> food g' \<in> set (segments g))) \<and>
      (\<not> valid \<longrightarrow>
         v = (\<exists>j. int j < c_int (T * 2) - attempts \<and>
                  sampled_cell cfg rnd (k + 2 * j) \<notin> set (segments g))) \<and>
      (attempts < a \<longrightarrow> food g' = sampled_cell cfg rnd (k' - 2))"
  using assms
proof (induction cfg rnd T g k valid attempts rule: food_loop.induct)
  case (1 cfg rnd T g k valid attempts)
  show ?case
  proof (cases "\<not> valid \<and> attempts < c_int (T * FOOD_PLACEMENT_MAX_ATTEMPTS_MULTIPLIER)")
    case False
    then have "food_loop cfg rnd T g k valid attempts = Some (g, k, valid, attempts)"
      by (subst food_loop.simps) auto
    moreover from False have "\<not> valid \<Longrightarrow> c_int (T * 2) \<le> attempts"
      by (simp add: FOOD_PLACEMENT_MAX_ATTEMPTS_MULTIPLIER_def)
    ultimately show ?thesis by auto
  next
    case True
    define c where "c = sampled_cell cfg rnd k"
    define g1 where "g1 = g\<lparr>food := c\<rparr>"
    define occ where "occ = (c \<in> set (segments g))"
    have seg1: "segments g1 = segments g" by (simp add: g1_def segments_def)
    have len1: "length_s (snake g1) \<le> int (length (body (snake g1)))"
      using "1.prems" by (simp add: g1_def)
    have h: "hits (body (snake g1)) (length_s (snake g1)) (food g1) 0 = Some occ"
      using hits_segments [OF len1, of "food g1"] unfolding seg1 occ_def by (simp add: g1_def)
    have step: "food_loop cfg rnd T g k valid attempts
                = food_loop cfg rnd T g1 (k + 2) (\<not> occ) (attempts + 1)"
      using True h by (subst food_loop.simps) (simp add: g1_def c_def Let_def)
    from "1.IH" [OF True refl h [unfolded g1_def c_def] len1 [unfolded g1_def c_def]]
    obtain g' k' v a where
      r: "food_loop cfg rnd T g1 (k + 2) (\<not> occ) (attempts + 1) = Some (g', k', v, a)"
      and f: "g' = g1\<lparr>food := food g'\<rparr>"
      and a1: "attempts + 1 \<le> a" and a2: "attempts + 1 < a \<longrightarrow> a \<le> c_int (T * 2)"
      and k: "int k' = int (k + 2) + 2 * (a - (attempts + 1))"
      and v1: "\<not> occ \<longrightarrow> a = attempts + 1 \<and> v"
      and v0: "a = attempts + 1 \<longrightarrow> g' = g1"
      and v2: "v \<longrightarrow> \<not> occ \<or> food g' \<notin> set (segments g1)"
      and v3: "\<not> v \<longrightarrow> c_int (T * 2) \<le> a \<and> (attempts + 1 < a \<longrightarrow> food g' \<in> set (segments g1))"
      and v4: "\<not> \<not> occ \<longrightarrow>
                 v = (\<exists>j. int j < c_int (T * 2) - (attempts + 1) \<and>
                          sampled_cell cfg rnd (k + 2 + 2 * j) \<notin> set (segments g1))"
      and v5: "attempts + 1 < a \<longrightarrow> food g' = sampled_cell cfg rnd (k' - 2)"
      unfolding g1_def c_def by blast
    have c1: "g' = g\<lparr>food := food g'\<rparr>" using f by (simp add: g1_def)
    have c2: "attempts \<le> a" using a1 by simp
    have c3: "attempts < a \<longrightarrow> a \<le> c_int (T * 2)"
      using a1 a2 True by (auto simp: FOOD_PLACEMENT_MAX_ATTEMPTS_MULTIPLIER_def)
    have c4: "int k' = int k + 2 * (a - attempts)" using k by simp
    have c5: "valid \<longrightarrow> a = attempts \<and> v" using True by simp
    have c9: "a = attempts \<longrightarrow> g' = g" using a1 by simp
    have c6: "v \<longrightarrow> valid \<or> food g' \<notin> set (segments g)"
    proof (cases occ)
      case True
      with v2 show ?thesis by (simp add: seg1)
    next
      case False
      with v1 v0 have "food g' = c" by (simp add: g1_def)
      with False show ?thesis by (simp add: occ_def)
    qed
    have c7: "\<not> v \<longrightarrow> c_int (T * 2) \<le> a \<and> (attempts < a \<longrightarrow> food g' \<in> set (segments g))"
    proof (cases occ)
      case False
      with v1 show ?thesis by simp
    next
      case True
      show ?thesis
      proof (cases "attempts + 1 < a")
        case True
        with v3 show ?thesis by (simp add: seg1)
      next
        case False
        with a1 have "a = attempts + 1" by simp
        moreover from this v0 have "food g' = c" by (simp add: g1_def)
        ultimately show ?thesis using v3 True by (simp add: occ_def)
      qed
    qed
    have c8: "\<not> valid \<longrightarrow>
         v = (\<exists>j. int j < c_int (T * 2) - attempts \<and> sampled_cell cfg rnd (k + 2 * j) \<notin> set (segments g))"
    proof (cases occ)
      case False
      then have "sampled_cell cfg rnd (k + 2 * 0) \<notin> set (segments g)"
        by (simp add: occ_def c_def)
      moreover from True have "int 0 < c_int (T * 2) - attempts"
        by (simp add: FOOD_PLACEMENT_MAX_ATTEMPTS_MULTIPLIER_def)
      ultimately have "\<exists>j. int j < c_int (T * 2) - attempts \<and>
                          sampled_cell cfg rnd (k + 2 * j) \<notin> set (segments g)"
        by blast
      with False v1 show ?thesis by simp
    next
      case True
      then have here: "sampled_cell cfg rnd k \<in> set (segments g)"
        by (simp add: occ_def c_def)
      have "(\<exists>j. int j < c_int (T * 2) - (attempts + 1) \<and>
                 sampled_cell cfg rnd (k + 2 + 2 * j) \<notin> set (segments g1))
            = (\<exists>j. int j < c_int (T * 2) - attempts \<and>
                 sampled_cell cfg rnd (k + 2 * j) \<notin> set (segments g))"
        (is "?L = ?R")
      proof
        assume ?L
        then obtain j where "int j < c_int (T * 2) - (attempts + 1)"
          "sampled_cell cfg rnd (k + 2 + 2 * j) \<notin> set (segments g1)" by blast
        then have "int (Suc j) < c_int (T * 2) - attempts"
          "sampled_cell cfg rnd (k + 2 * Suc j) \<notin> set (segments g)"
          by (simp_all add: seg1 add.assoc)
        then show ?R by blast
      next
        assume ?R
        then obtain j where j: "int j < c_int (T * 2) - attempts"
          "sampled_cell cfg rnd (k + 2 * j) \<notin> set (segments g)" by blast
        with here have "j \<noteq> 0" by (cases j) auto
        then obtain i where "j = Suc i" by (cases j) auto
        with j have "int i < c_int (T * 2) - (attempts + 1)"
          "sampled_cell cfg rnd (k + 2 + 2 * i) \<notin> set (segments g1)"
          by (simp_all add: seg1 add.assoc)
        then show ?L by blast
      qed
      with True v4 show ?thesis by simp
    qed
    have c10: "attempts < a \<longrightarrow> food g' = sampled_cell cfg rnd (k' - 2)"
    proof (cases "attempts + 1 < a")
      case True
      with v5 show ?thesis by simp
    next
      case False
      with a1 have e: "a = attempts + 1" by simp
      with v0 have "food g' = c" by (simp add: g1_def)
      moreover from e k have "k' = k + 2" by simp
      ultimately show ?thesis by (simp add: c_def)
    qed
    from step r c1 c2 c3 c4 c5 c9 c6 c7 c8 c10 show ?thesis by simp
  qed
qed


lemma generate_food_early:
  "length_s (snake g) \<ge> c_int (board_width cfg * board_height cfg) \<Longrightarrow>
   generate_food cfg rnd (g, k) = Some (g\<lparr>game_over := True\<rparr>, k)"
  by (simp add: generate_food_def)

lemma generate_food_Some:
  assumes "length_s (snake g) \<le> int (length (body (snake g)))"
    and "length_s (snake g) < c_int (board_width cfg * board_height cfg)"
    and "0 \<le> length_s (snake g)"
  shows "\<exists>g' k'. generate_food cfg rnd (g, k) = Some (g', k') \<and>
      g' = g\<lparr>food := food g', game_over := game_over g'\<rparr> \<and>
      (game_over g \<longrightarrow> game_over g') \<and>
      k \<le> k' \<and> even (k' - k) \<and>
      int ((k' - k) div 2) \<le> max 0 (c_int (c_int (board_width cfg * board_height cfg) * 2)) \<and>
      (k' = k \<longrightarrow> food g' = food g) \<and>
      (k < k' \<longrightarrow> food g' = sampled_cell cfg rnd (k' - 2)) \<and>
      (game_over g' \<longrightarrow> game_over g \<or> k' = k \<or> food g' \<in> set (segments g)) \<and>
      (\<not> game_over g' \<longrightarrow> food g' \<notin> set (segments g)) \<and>
      (\<not> game_over g \<longrightarrow>
         game_over g' =
           (\<forall>j. int j < c_int (c_int (board_width cfg * board_height cfg) * 2) \<longrightarrow>
                sampled_cell cfg rnd (k + 2 * j) \<in> set (segments g)) \<and>
         (game_over g' \<longrightarrow>
            int k' = int k + 2 * max 0 (c_int (c_int (board_width cfg * board_height cfg) * 2))))"
proof -
  define T where "T = c_int (board_width cfg * board_height cfg)"
  define B where "B = c_int (T * 2)"
  from food_loop_Some [OF assms(1), of cfg rnd T k False 0]
  obtain g1 k1 v a where
    r: "food_loop cfg rnd T g k False 0 = Some (g1, k1, v, a)"
    and f: "g1 = g\<lparr>food := food g1\<rparr>"
    and a1: "0 \<le> a" and a2: "0 < a \<longrightarrow> a \<le> B"
    and k: "int k1 = int k + 2 * (a - 0)"
    and a0: "a = 0 \<longrightarrow> g1 = g"
    and v2: "v \<longrightarrow> False \<or> food g1 \<notin> set (segments g)"
    and v3: "\<not> v \<longrightarrow> B \<le> a \<and> (0 < a \<longrightarrow> food g1 \<in> set (segments g))"
    and v4: "\<not> False \<longrightarrow>
               v = (\<exists>j. int j < B - 0 \<and> sampled_cell cfg rnd (k + 2 * j) \<notin> set (segments g))"
    and v5: "0 < a \<longrightarrow> food g1 = sampled_cell cfg rnd (k1 - 2)"
    unfolding B_def by blast
  from assms(2) have Tpos: "length_s (snake g) < T" by (simp add: T_def)
  have gf: "generate_food cfg rnd (g, k) = Some (if v then g1 else g1\<lparr>game_over := True\<rparr>, k1)"
    using r Tpos by (simp add: generate_food_def T_def [symmetric] Let_def)
  define g' where "g' = (if v then g1 else g1\<lparr>game_over := True\<rparr>)"
  have g1s: "game_over g1 = game_over g"
    by (subst f) simp
  have go: "game_over g' = (game_over g \<or> \<not> v)"
    by (simp add: g'_def g1s)
  have fd: "food g' = food g1" by (simp add: g'_def)
  have t: "g1\<lparr>game_over := True\<rparr> = g\<lparr>food := food g1, game_over := True\<rparr>"
    by (subst f) simp
  have e1: "g\<lparr>food := food g1, game_over := game_over g\<rparr> = g\<lparr>food := food g1\<rparr>"
    by simp
  have c1: "g' = g\<lparr>food := food g', game_over := game_over g'\<rparr>"
  proof (cases v)
    case True
    then have "g' = g1" by (simp add: g'_def)
    moreover have "g1 = g\<lparr>food := food g1, game_over := game_over g1\<rparr>"
      unfolding g1s e1 by (rule f)
    ultimately show ?thesis by simp
  next
    case False
    then have "g' = g1\<lparr>game_over := True\<rparr>" by (simp add: g'_def)
    with t show ?thesis by simp
  qed
  have c2: "int k \<le> int k1" using k a1 by simp
  then have kk: "k \<le> k1" by simp
  from k a1 have ka: "int (k1 - k) = 2 * a" using kk by simp
  then have "even (int (k1 - k))" by simp
  then have c4: "even (k1 - k)" by simp
  from ka have "int ((k1 - k) div 2) = a" by (simp add: zdiv_int)
  moreover have amax: "a \<le> max 0 B" using a1 a2 by (cases "0 < a") auto
  ultimately have c3: "int ((k1 - k) div 2) \<le> max 0 B" by simp
  have same: "k1 = k \<longleftrightarrow> a = 0" using ka kk by auto
  have c5: "k1 = k \<longrightarrow> food g' = food g" using same a0 fd by auto
  have c6: "k < k1 \<longrightarrow> food g' = sampled_cell cfg rnd (k1 - 2)"
    using same a1 v5 fd kk by (cases "a = 0") auto
  have c7: "game_over g' \<longrightarrow> game_over g \<or> k1 = k \<or> food g' \<in> set (segments g)"
    using go v3 fd same a1 by (cases "a = 0") auto
  have c8: "\<not> game_over g' \<longrightarrow> food g' \<notin> set (segments g)"
    using go v2 fd by simp
  have c9: "\<not> game_over g \<longrightarrow>
         game_over g' = (\<forall>j. int j < B \<longrightarrow> sampled_cell cfg rnd (k + 2 * j) \<in> set (segments g))"
    using v4 go by auto
  have c10: "\<not> game_over g \<longrightarrow> game_over g' \<longrightarrow> int k1 = int k + 2 * max 0 B"
  proof (intro impI)
    assume "\<not> game_over g" "game_over g'"
    with go have "\<not> v" by simp
    with v3 have "B \<le> a" by simp
    with amax a1 have "a = max 0 B" by simp
    with k show "int k1 = int k + 2 * max 0 B" by simp
  qed
  from gf c1 kk c3 c4 c5 c6 c7 c8 c9 c10 go show ?thesis
    unfolding g'_def [symmetric] B_def T_def by simp
qed


section \<open>Movement in closed form\<close>

lemma hits_tail:
  "length_s (snake g) \<le> int (length (body (snake g))) \<Longrightarrow>
   hits (body (snake g)) (length_s (snake g)) p 1 = Some (p \<in> set (tl (segments g)))"
  by (simp add: hits_set segments_def drop_Suc tl_take drop_take)

lemma shift_regular_write:
  assumes "1 \<le> n" "n \<le> int (length buf)"
  shows "\<exists>b1. shift_regular buf (n - 1) = Some b1 \<and>
           wr b1 0 p = Some (p # take (nat n - 1) buf @ drop (nat n) buf)"
proof -
  from assms have ne: "buf \<noteq> []" by auto
  then obtain x xs where buf: "buf = x # xs" by (cases buf) auto
  from assms obtain m where m: "nat n = Suc m" by (cases "nat n") auto
  from assms have s: "shift_regular buf (n - 1)
       = Some (take 1 buf @ take (nat (n - 1)) buf @ drop (Suc (nat (n - 1))) buf)"
    by (intro shift_regular_closed) simp_all
  from assms have e: "nat (n - 1) = nat n - 1" "Suc (nat (n - 1)) = nat n" by simp_all
  show ?thesis unfolding s e by (simp add: wr_def buf m)
qed


lemma move_to_hit:
  assumes "length_s (snake g) \<le> int (length (body (snake g)))"
    and "p \<in> set (tl (segments g))"
  shows "move_to cfg rnd (g, k) p = Some (g\<lparr>game_over := True\<rparr>, k)"
  using assms by (simp add: move_to_def hits_tail Let_def)

lemma move_to_regular:
  assumes "1 \<le> length_s (snake g)" "length_s (snake g) \<le> int (length (body (snake g)))"
    and "p \<notin> set (tl (segments g))" "game_mode cfg = MODE_REGULAR"
  shows "move_to cfg rnd (g, k) p =
     (if p = food g
      then generate_food cfg rnd
             (g\<lparr>snake := (snake g)\<lparr>body := moved_body p g, length_s := length_s (snake g) + 1\<rparr>,
                score := score g + 10\<rparr>, k)
      else Some (g\<lparr>snake := (snake g)\<lparr>body := moved_body p g\<rparr>\<rparr>, k))"
proof -
  from shift_regular_write [OF assms(1,2), of p] obtain b1 where
    "shift_regular (body (snake g)) (length_s (snake g) - 1) = Some b1"
    "wr b1 0 p = Some (moved_body p g)"
    unfolding moved_body_def by blast
  with assms show ?thesis
    by (simp add: move_to_def hits_tail Let_def POINTS_PER_FOOD_def Point_eq_iff)
qed




section \<open>Collisions and timing\<close>

lemma move_snake_new_head:
  "move_snake cfg rnd (g, k) =
     (case new_head cfg g of
        None \<Rightarrow> None
      | Some p \<Rightarrow>
          if \<not> wraparound_mode cfg \<and> off_board cfg p then Some (g\<lparr>game_over := True\<rparr>, k)
          else move_to cfg rnd (g, k) p)"
  by (cases "rd (body (snake g)) 0") (simp_all add: move_snake_def new_head_def Let_def)

lemma last_in_tl: "2 \<le> length xs \<Longrightarrow> last xs \<in> set (tl xs)"
  by (cases xs) auto

text \<open>
  C1. When the new head that \<open>move_snake\<close> computes equals a segment other than the
  head (index 1 to \<open>length - 1\<close> of the body before the move), the move sets
  \<open>game_over\<close> and changes nothing else: the body, the length, the score, the food and
  the random number generator are as before. The last segment counts, although the move
  would vacate it: a snake of at least two segments cannot move onto its tail.
\<close>

theorem self_collision_ends_game:
  assumes "length_s (snake g) \<le> int (length (body (snake g)))"
    and "new_head cfg g = Some p"
  shows "(p \<in> set (tl (segments g)) \<longrightarrow>
            move_snake cfg rnd (g, k) = Some (g\<lparr>game_over := True\<rparr>, k)) \<and>
         (2 \<le> length_s (snake g) \<and> p = last (segments g) \<longrightarrow>
            move_snake cfg rnd (g, k) = Some (g\<lparr>game_over := True\<rparr>, k))"
proof -
  have hit: "move_snake cfg rnd (g, k) = Some (g\<lparr>game_over := True\<rparr>, k)"
    if "p \<in> set (tl (segments g))"
    using that assms by (simp add: move_snake_new_head move_to_hit)
  moreover have "p \<in> set (tl (segments g))"
    if "2 \<le> length_s (snake g)" "p = last (segments g)"
  proof -
    from that(1) assms(1) have "2 \<le> length (segments g)"
      by (simp add: segments_def)
    with that(2) show ?thesis by (simp add: last_in_tl)
  qed
  ultimately show ?thesis by blast
qed

theorem self_collision_ends_game_witness:
  "length_s (snake coiled) \<le> int (length (body (snake coiled))) \<and>
   new_head coiled_cfg coiled = Some \<lparr>px = 1, py = 0\<rparr> \<and>
   \<lparr>px = 1, py = 0\<rparr> \<in> set (tl (segments coiled)) \<and>
   2 \<le> length_s (snake coiled) \<and> \<lparr>px = 1, py = 0\<rparr> = last (segments coiled) \<and>
   move_snake coiled_cfg (\<lambda>i. 0) (coiled, 0) = Some (coiled\<lparr>game_over := True\<rparr>, 0)"
proof -
  have a: "length_s (snake coiled) \<le> int (length (body (snake coiled)))"
    by (simp add: coiled_def)
  have b: "new_head coiled_cfg coiled = Some \<lparr>px = 1, py = 0\<rparr>"
    by (simp add: new_head_def coiled_def coiled_cfg_def config_def rd_def)
  have c: "\<lparr>px = 1, py = 0\<rparr> \<in> set (tl (segments coiled))"
    by (simp add: segments_def coiled_def)
  have d: "\<lparr>px = 1, py = 0\<rparr> = last (segments coiled)"
    by (simp add: segments_def coiled_def)
  have e: "2 \<le> length_s (snake coiled)" by (simp add: coiled_def)
  from self_collision_ends_game [OF a b, of "\<lambda>i. 0" 0] a b c d e show ?thesis by simp
qed

text \<open>
  C6. Without wraparound, when the new head lies outside the board, \<open>move_snake\<close> sets
  \<open>game_over\<close> and returns: the snake (body, length, direction), the score and the food
  are those of the state before, and no random number is drawn.
\<close>

theorem wall_collision_ends_game:
  assumes "\<not> wraparound_mode cfg"
    and "new_head cfg g = Some p"
    and "off_board cfg p"
  shows "\<exists>g'. move_snake cfg rnd (g, k) = Some (g', k) \<and> game_over g' \<and>
           body (snake g') = body (snake g) \<and> length_s (snake g') = length_s (snake g) \<and>
           score g' = score g \<and> food g' = food g \<and> g' = g\<lparr>game_over := True\<rparr>"
  using assms by (simp add: move_snake_new_head)

theorem wall_collision_ends_game_witness:
  "\<not> wraparound_mode coiled_cfg \<and>
   new_head coiled_cfg (coiled\<lparr>snake := (snake coiled)\<lparr>direction := UP\<rparr>\<rparr>)
     = Some \<lparr>px = 0, py = -1\<rparr> \<and>
   off_board coiled_cfg \<lparr>px = 0, py = -1\<rparr> \<and>
   move_snake coiled_cfg (\<lambda>i. 0) (coiled\<lparr>snake := (snake coiled)\<lparr>direction := UP\<rparr>\<rparr>, 0)
     = Some (coiled\<lparr>snake := (snake coiled)\<lparr>direction := UP\<rparr>, game_over := True\<rparr>, 0)"
proof -
  let ?g = "coiled\<lparr>snake := (snake coiled)\<lparr>direction := UP\<rparr>\<rparr>"
  have a: "\<not> wraparound_mode coiled_cfg" by (simp add: coiled_cfg_def config_def)
  have b: "new_head coiled_cfg ?g = Some \<lparr>px = 0, py = -1\<rparr>"
    by (simp add: new_head_def coiled_def coiled_cfg_def config_def rd_def)
  have c: "off_board coiled_cfg \<lparr>px = 0, py = -1\<rparr>"
    by (simp add: off_board_def)
  from wall_collision_ends_game [OF a b c, of "\<lambda>i. 0" 0] a b c show ?thesis by auto
qed

text \<open>
  C8. For positive frame rates \<open>calculate_intervals\<close> sets both intervals to 1000000
  divided by the rate, rounded down. A tick is due exactly when \<open>now - last \<ge> interval\<close>;
  once \<open>last\<close> has been set to \<open>now\<close>, no tick is due at any \<open>now'\<close> below
  \<open>now + interval\<close>. One iteration of the main loop uses this test for both ticks (the
  move tick also needs the game not to be paused) and sets \<open>last_move\<close> and
  \<open>last_render\<close> to the clock reading exactly when the tick fired.
\<close>

theorem timing_intervals_and_due:
  assumes "0 < render_fps cfg" and "0 < move_fps cfg"
  shows "render_interval (calculate_intervals cfg) = 1000000 div render_fps cfg \<and>
         move_interval (calculate_intervals cfg) = 1000000 div move_fps cfg \<and>
         (\<forall>now last_fired interval.
            tick_due now last_fired interval = (now - last_fired \<ge> interval)) \<and>
         (\<forall>now now' interval. now' < now + interval \<longrightarrow> \<not> tick_due now' now interval) \<and>
         (\<forall>rnd now s s' moved frame.
            loop_body (calculate_intervals cfg) rnd now s = Some (s', moved, frame) \<longrightarrow>
              (moved \<noteq> None) =
                (tick_due now (last_move s) (1000000 div move_fps cfg)
                 \<and> \<not> paused (fst (handle_input (stdin s) (game s)))) \<and>
              (frame \<noteq> None) = tick_due now (last_render s) (1000000 div render_fps cfg) \<and>
              last_move s' = (if moved \<noteq> None then now else last_move s) \<and>
              last_render s' = (if frame \<noteq> None then now else last_render s))"
proof -
  have i: "render_interval (calculate_intervals cfg) = 1000000 div render_fps cfg"
    "move_interval (calculate_intervals cfg) = 1000000 div move_fps cfg"
    using assms by (simp_all add: calculate_intervals_def MICROSECONDS_PER_SECOND_def c_div_nonneg)
  have d: "\<forall>now last_fired interval.
            tick_due now last_fired interval = (now - last_fired \<ge> interval)"
    by (simp add: tick_due_def)
  have f: "\<forall>now now' interval. now' < now + interval \<longrightarrow> \<not> tick_due now' now interval"
    by (auto simp: tick_due_def)
  have l: "(moved \<noteq> None) =
                (tick_due now (last_move s) (move_interval c)
                 \<and> \<not> paused (fst (handle_input (stdin s) (game s)))) \<and>
              (frame \<noteq> None) = tick_due now (last_render s) (render_interval c) \<and>
              last_move s' = (if moved \<noteq> None then now else last_move s) \<and>
              last_render s' = (if frame \<noteq> None then now else last_render s)"
    if "loop_body c rnd now s = Some (s', moved, frame)" for c rnd now s s' moved frame
    using that
    by (auto simp: loop_body_def split: prod.splits if_splits Option.bind_splits) metis+
  from i d f l [where c = "calculate_intervals cfg"] show ?thesis
    unfolding i by blast
qed

theorem timing_intervals_and_due_witness:
  "0 < render_fps coiled_cfg \<and> 0 < move_fps coiled_cfg \<and>
   render_interval (calculate_intervals coiled_cfg) = 33333 \<and>
   move_interval (calculate_intervals coiled_cfg) = 166666 \<and>
   tick_due 166666 0 166666 \<and> \<not> tick_due 166665 0 166666 \<and>
   (333331 < 166666 + (166666::int) \<and> \<not> tick_due 333331 166666 166666) \<and>
   loop_body (calculate_intervals coiled_cfg) (\<lambda>i. 0) 166666
       \<lparr>game = coiled, rand_calls = 0, last_render = 0, last_move = 0, stdin = []\<rparr>
     = Some (\<lparr>game = coiled\<lparr>game_over := True\<rparr>, rand_calls = 0, last_render = 166666,
                last_move = 166666, stdin = []\<rparr>,
             Some RIGHT,
             Some \<lparr>shown_score = 30, shown_paused = False,
                   shown_cells =
                     [[Wall, Wall, Wall, Wall], [Wall, Snake_Head, Snake_Body, Wall],
                      [Wall, Snake_Body, Snake_Body, Wall], [Wall, Wall, Wall, Wall]]\<rparr>)"
proof -
  have a: "0 < render_fps coiled_cfg" "0 < move_fps coiled_cfg"
    by (simp_all add: coiled_cfg_def config_def)
  have l: "loop_body (calculate_intervals coiled_cfg) (\<lambda>i. 0) 166666
       \<lparr>game = coiled, rand_calls = 0, last_render = 0, last_move = 0, stdin = []\<rparr>
     = Some (\<lparr>game = coiled\<lparr>game_over := True\<rparr>, rand_calls = 0, last_render = 166666,
                last_move = 166666, stdin = []\<rparr>,
             Some RIGHT,
             Some \<lparr>shown_score = 30, shown_paused = False,
                   shown_cells =
                     [[Wall, Wall, Wall, Wall], [Wall, Snake_Head, Snake_Body, Wall],
                      [Wall, Snake_Body, Snake_Body, Wall], [Wall, Wall, Wall, Wall]]\<rparr>)"
    by code_simp
  from timing_intervals_and_due [OF a] a l show ?thesis
    by (simp add: coiled_cfg_def config_def)
qed


section \<open>Initialisation in closed form\<close>

lemma get_terminal_size_override:
  "0 < ow \<Longrightarrow> 0 < oh \<Longrightarrow>
   get_terminal_size ws ow oh cfg = cfg\<lparr>board_width := ow, board_height := oh\<rparr>"
  by (cases ws) (auto simp: get_terminal_size_def)

lemma upt_from_three:
  "3 \<le> n \<Longrightarrow> map f [0..<n] = f 0 # f 1 # f 2 # map f [3..<n]"
proof -
  assume "3 \<le> n"
  then have "[0..<n] = 0 # 1 # 2 # [3..<n]"
    by (simp add: upt_conv_Cons numeral_3_eq_3 numeral_2_eq_2)
  then show ?thesis by simp
qed

lemma init_game_closed:
  assumes "cfg = get_terminal_size ws ow oh cfg0"
    and "3 \<le> c_int (board_width cfg * board_height cfg)"
  shows "init_game ws ow oh mem rnd cfg0 =
     Some (cfg,
           \<lparr>food = sampled_cell cfg rnd 0,
            snake = \<lparr>body = \<lparr>px = c_div (board_width cfg) 2, py = c_div (board_height cfg) 2\<rparr>
                            # \<lparr>px = c_div (board_width cfg) 2 - 1, py = c_div (board_height cfg) 2\<rparr>
                            # \<lparr>px = c_div (board_width cfg) 2 - 2, py = c_div (board_height cfg) 2\<rparr>
                            # map mem [3..<nat (c_int (board_width cfg * board_height cfg))],
                     length_s = 3, max_length = c_int (board_width cfg * board_height cfg),
                     direction = RIGHT\<rparr>,
            score = 0, game_over = False, paused = False\<rparr>,
           2)"
proof -
  from assms(2) have "3 \<le> nat (c_int (board_width cfg * board_height cfg))" by simp
  then have m: "map mem [0..<nat (c_int (board_width cfg * board_height cfg))]
      = mem 0 # mem 1 # mem 2 # map mem [3..<nat (c_int (board_width cfg * board_height cfg))]"
    by (rule upt_from_three)
  show ?thesis
    unfolding init_game_def assms(1) [symmetric] Let_def m
    by (simp add: wr_def rd_def)
qed

lemma init_game_too_small:
  assumes "cfg = get_terminal_size ws ow oh cfg0"
    and "c_int (board_width cfg * board_height cfg) < 3"
  shows "init_game ws ow oh mem rnd cfg0 = None"
proof -
  from assms(2) have "nat (c_int (board_width cfg * board_height cfg)) < 3" by simp
  then have "length (map mem [0..<nat (c_int (board_width cfg * board_height cfg))]) < 3" by simp
  then show ?thesis
    unfolding init_game_def assms(1) [symmetric] Let_def
    by (auto simp: wr_def rd_def split: Option.bind_splits if_splits)
qed

section \<open>Initial state and first move\<close>

lemma init_game_layout:
  assumes "cfg = get_terminal_size ws ow oh cfg0"
    and "4 \<le> board_width cfg" and "1 \<le> board_height cfg"
    and "board_width cfg * board_height cfg \<le> 2147483647"
  shows "\<exists>g. init_game ws ow oh mem rnd cfg0 = Some (cfg, g, 2) \<and>
           length_s (snake g) = 3 \<and> length (segments g) = 3 \<and>
           (\<forall>p \<in> set (segments g). \<not> off_board cfg p \<and> py p = py (segments g ! 0)) \<and>
           segments g ! 0 = \<lparr>px = board_width cfg div 2, py = board_height cfg div 2\<rparr> \<and>
           well_formed cfg g"
proof -
  from assms(2,3) have "4 * 1 \<le> board_width cfg * board_height cfg"
    by (intro mult_mono) simp_all
  then have big: "3 \<le> board_width cfg * board_height cfg" by simp
  with assms(4) have ci: "c_int (board_width cfg * board_height cfg)
                          = board_width cfg * board_height cfg"
    by (intro c_int_id) simp_all
  from big ci have big': "3 \<le> c_int (board_width cfg * board_height cfg)" by simp
  from assms(2,3) have d: "c_div (board_width cfg) 2 = board_width cfg div 2"
    "c_div (board_height cfg) 2 = board_height cfg div 2"
    by (simp_all add: c_div_nonneg)
  note init = init_game_closed [OF assms(1) big', of mem rnd, unfolded d ci]
  from assms(2,3) big show ?thesis
    unfolding init
    by (auto simp: segments_def off_board_def well_formed_def)
qed

text \<open>
  C5, on the boards where it fails. With \<open>-w 2 -h 2\<close> the third segment of the
  initial snake lies at \<open>x = -1\<close>, outside the board; with \<open>-w 1 -h 1\<close> the buffer has
  one slot and writing the second segment is an access outside the allocation.
\<close>

theorem init_game_narrow_board:
  "(\<exists>cfg g. init_game ws 2 2 mem rnd cfg0 = Some (cfg, g, 2) \<and>
      board_width cfg = 2 \<and> board_height cfg = 2 \<and>
      segments g = [\<lparr>px = 1, py = 1\<rparr>, \<lparr>px = 0, py = 1\<rparr>, \<lparr>px = -1, py = 1\<rparr>] \<and>
      off_board cfg (segments g ! 2)) \<and>
   init_game ws 1 1 mem rnd cfg0 = None"
proof -
  have c: "get_terminal_size ws 2 2 cfg0 = cfg0\<lparr>board_width := 2, board_height := 2\<rparr>"
    by (simp add: get_terminal_size_override)
  have "init_game ws 2 2 mem rnd cfg0 = Some (cfg0\<lparr>board_width := 2, board_height := 2\<rparr>,
           \<lparr>food = sampled_cell (cfg0\<lparr>board_width := 2, board_height := 2\<rparr>) rnd 0,
            snake = \<lparr>body = \<lparr>px = c_div 2 2, py = c_div 2 2\<rparr>
                            # \<lparr>px = c_div 2 2 - 1, py = c_div 2 2\<rparr>
                            # \<lparr>px = c_div 2 2 - 2, py = c_div 2 2\<rparr>
                            # map mem [3..<nat (2 * 2)],
                     length_s = 3, max_length = 2 * 2,
                     direction = RIGHT\<rparr>,
            score = 0, game_over = False, paused = False\<rparr>,
           2)"
    using init_game_closed [OF c [symmetric], of mem rnd] by (simp add: c_int_def)
  then have one: "\<exists>cfg g. init_game ws 2 2 mem rnd cfg0 = Some (cfg, g, 2) \<and>
      board_width cfg = 2 \<and> board_height cfg = 2 \<and>
      segments g = [\<lparr>px = 1, py = 1\<rparr>, \<lparr>px = 0, py = 1\<rparr>, \<lparr>px = -1, py = 1\<rparr>] \<and>
      off_board cfg (segments g ! 2)"
    by (simp add: segments_def off_board_def c_div_def)
  have "get_terminal_size ws 1 1 cfg0 = cfg0\<lparr>board_width := 1, board_height := 1\<rparr>"
    by (simp add: get_terminal_size_override)
  from init_game_too_small [OF this [symmetric], of mem rnd]
  have "init_game ws 1 1 mem rnd cfg0 = None" by (simp add: c_int_def)
  with one show ?thesis by blast
qed

text \<open>
  C9. With \<open>-w 10 -h 10\<close>, regular mode and no wraparound, the game starts with the
  snake on (5,5), (4,5), (3,5), heading right. If the food is not on (6,5), one call of
  \<open>move_snake\<close> leaves the snake on (6,5), (5,5), (4,5) with length 3 and score 0.
\<close>

theorem first_move_ten_by_ten:
  assumes "game_mode cfg0 = MODE_REGULAR" and "\<not> wraparound_mode cfg0"
  shows "\<exists>cfg g. init_game ws 10 10 mem rnd cfg0 = Some (cfg, g, 2) \<and>
           board_width cfg = 10 \<and> board_height cfg = 10 \<and>
           segments g = [\<lparr>px = 5, py = 5\<rparr>, \<lparr>px = 4, py = 5\<rparr>, \<lparr>px = 3, py = 5\<rparr>] \<and>
           direction (snake g) = RIGHT \<and> length_s (snake g) = 3 \<and> score g = 0 \<and>
           (food g \<noteq> \<lparr>px = 6, py = 5\<rparr> \<longrightarrow>
              (\<exists>g'. move_snake cfg rnd (g, 2) = Some (g', 2) \<and>
                 segments g' = [\<lparr>px = 6, py = 5\<rparr>, \<lparr>px = 5, py = 5\<rparr>, \<lparr>px = 4, py = 5\<rparr>] \<and>
                 length_s (snake g') = 3 \<and> score g' = 0 \<and> \<not> game_over g'))"
proof -
  define cfg where "cfg = cfg0\<lparr>board_width := 10, board_height := 10\<rparr>"
  define g where "g =
           \<lparr>food = sampled_cell cfg rnd 0,
            snake = \<lparr>body = \<lparr>px = 5, py = 5\<rparr> # \<lparr>px = 4, py = 5\<rparr> # \<lparr>px = 3, py = 5\<rparr>
                            # map mem [3..<100],
                     length_s = 3, max_length = 100, direction = RIGHT\<rparr>,
            score = 0, game_over = False, paused = False\<rparr>"
  have c: "cfg = get_terminal_size ws 10 10 cfg0"
    by (simp add: get_terminal_size_override cfg_def)
  have w: "board_width cfg = 10" "board_height cfg = 10" "game_mode cfg = MODE_REGULAR"
    "\<not> wraparound_mode cfg"
    using assms by (simp_all add: cfg_def)
  have init: "init_game ws 10 10 mem rnd cfg0 = Some (cfg, g, 2)"
    using init_game_closed [OF c, of mem rnd] by (simp add: w g_def c_div_def c_int_def)
  have seg: "segments g = [\<lparr>px = 5, py = 5\<rparr>, \<lparr>px = 4, py = 5\<rparr>, \<lparr>px = 3, py = 5\<rparr>]"
    by (simp add: segments_def g_def)
  have nh: "new_head cfg g = Some \<lparr>px = 6, py = 5\<rparr>"
    by (simp add: new_head_def g_def rd_def w)
  have len: "1 \<le> length_s (snake g)" "length_s (snake g) \<le> int (length (body (snake g)))"
    by (simp_all add: g_def)
  have mv: "\<exists>g'. move_snake cfg rnd (g, 2) = Some (g', 2) \<and>
                 segments g' = [\<lparr>px = 6, py = 5\<rparr>, \<lparr>px = 5, py = 5\<rparr>, \<lparr>px = 4, py = 5\<rparr>] \<and>
                 length_s (snake g') = 3 \<and> score g' = 0 \<and> \<not> game_over g'"
    if "food g \<noteq> \<lparr>px = 6, py = 5\<rparr>"
  proof -
    have "\<lparr>px = 6, py = 5\<rparr> \<notin> set (tl (segments g))" by (simp add: seg)
    from move_to_regular [OF len this w(3), of rnd 2] that
    have "move_to cfg rnd (g, 2) \<lparr>px = 6, py = 5\<rparr>
            = Some (g\<lparr>snake := (snake g)\<lparr>body := moved_body \<lparr>px = 6, py = 5\<rparr> g\<rparr>\<rparr>, 2)"
      by simp
    then have "move_snake cfg rnd (g, 2)
            = Some (g\<lparr>snake := (snake g)\<lparr>body := moved_body \<lparr>px = 6, py = 5\<rparr> g\<rparr>\<rparr>, 2)"
      by (simp add: move_snake_new_head nh w off_board_def)
    then show ?thesis
      by (simp add: segments_def moved_body_def g_def)
  qed
  from init w seg mv show ?thesis by (auto simp: g_def)
qed

theorem first_move_ten_by_ten_witness:
  "game_mode config = MODE_REGULAR \<and> \<not> wraparound_mode config \<and>
   (\<exists>cfg g. init_game None 10 10 (\<lambda>i. \<lparr>px = 0, py = 0\<rparr>) (\<lambda>i. 0) config = Some (cfg, g, 2) \<and>
      food g = \<lparr>px = 0, py = 0\<rparr> \<and> food g \<noteq> \<lparr>px = 6, py = 5\<rparr> \<and>
      segments g = [\<lparr>px = 5, py = 5\<rparr>, \<lparr>px = 4, py = 5\<rparr>, \<lparr>px = 3, py = 5\<rparr>] \<and>
      (\<exists>g'. move_snake cfg (\<lambda>i. 0) (g, 2) = Some (g', 2) \<and>
         segments g' = [\<lparr>px = 6, py = 5\<rparr>, \<lparr>px = 5, py = 5\<rparr>, \<lparr>px = 4, py = 5\<rparr>] \<and>
         length_s (snake g') = 3 \<and> score g' = 0))"
proof -
  have a: "game_mode config = MODE_REGULAR" "\<not> wraparound_mode config"
    by (simp_all add: config_def)
  from first_move_ten_by_ten [OF a, of None "\<lambda>i. \<lparr>px = 0, py = 0\<rparr>" "\<lambda>i. 0"]
  obtain cfg g where
    i: "init_game None 10 10 (\<lambda>i. \<lparr>px = 0, py = 0\<rparr>) (\<lambda>i. 0) config = Some (cfg, g, 2)"
    and w: "board_width cfg = 10" "board_height cfg = 10"
    and s: "segments g = [\<lparr>px = 5, py = 5\<rparr>, \<lparr>px = 4, py = 5\<rparr>, \<lparr>px = 3, py = 5\<rparr>]"
    and m: "food g \<noteq> \<lparr>px = 6, py = 5\<rparr> \<longrightarrow>
              (\<exists>g'. move_snake cfg (\<lambda>i. 0) (g, 2) = Some (g', 2) \<and>
                 segments g' = [\<lparr>px = 6, py = 5\<rparr>, \<lparr>px = 5, py = 5\<rparr>, \<lparr>px = 4, py = 5\<rparr>] \<and>
                 length_s (snake g') = 3 \<and> score g' = 0 \<and> \<not> game_over g')"
    by blast
  from i have f: "food g = \<lparr>px = 0, py = 0\<rparr>"
    by (auto simp: init_game_def Let_def sampled_cell_def c_mod_def c_div_def wr_def rd_def
             split: Option.bind_splits if_splits)
  with a i s m show ?thesis by auto
qed


section \<open>Food placement and input\<close>

lemma c_int_cells:
  assumes "0 \<le> n" and "2 * n \<le> 2147483647"
  shows "c_int n = n" and "c_int (c_int n * 2) = 2 * n" and "c_int (n * 2) = 2 * n"
proof -
  from assms show a: "c_int n = n" by (intro c_int_id) simp_all
  from assms have "c_int (n * 2) = n * 2" by (intro c_int_id) simp_all
  then show "c_int (c_int n * 2) = 2 * n" "c_int (n * 2) = 2 * n" by (simp_all add: a)
qed

lemma c_int_bound_le:
  assumes "0 \<le> n"
  shows "max 0 (c_int (c_int n * 2)) \<le> 2 * n"
proof (cases "0 \<le> c_int n")
  case True
  then have "c_int (c_int n * 2) \<le> c_int n * 2" by (intro c_int_le) simp
  also have "\<dots> \<le> n * 2" using c_int_le [OF assms] by simp
  finally show ?thesis using assms by simp
next
  case False
  have "2147483647 < n"
  proof (rule ccontr)
    assume "\<not> 2147483647 < n"
    with assms have "c_int n = n" by (intro c_int_id) simp_all
    with False assms show False by simp
  qed
  with c_int_upper [of "c_int n * 2"] assms show ?thesis by simp
qed

text \<open>
  C7. On a board of at least one cell \<open>generate_food\<close> always returns, writes nothing
  but the food and \<open>game_over\<close>, and draws at most \<open>2 * width * height\<close> cells (two
  calls of \<open>rand()\<close> each). When the snake has \<open>width * height\<close> segments or more it
  sets \<open>game_over\<close> without drawing a cell and leaves the food where it was. When every
  cell that \<open>2 * width * height\<close> draws would give is occupied, it sets \<open>game_over\<close>.
  Whenever it returns with \<open>game_over\<close> clear, the food is on no segment. On boards
  where \<open>2 * width * height\<close> fits an \<open>int\<close>, and for a shorter snake in a running
  game, it sets \<open>game_over\<close> exactly when all \<open>2 * width * height\<close> cells drawn are
  occupied, after exactly that many draws; the food is then left on the last cell drawn,
  which lies on the snake.
\<close>

theorem generate_food_bounded:
  assumes "1 \<le> board_width cfg" and "1 \<le> board_height cfg"
    and "0 \<le> length_s (snake g)"
    and "length_s (snake g) \<le> int (length (body (snake g)))
         \<or> board_width cfg * board_height cfg \<le> length_s (snake g)"
  shows "\<exists>g' k'. generate_food cfg rnd (g, k) = Some (g', k') \<and>
      g' = g\<lparr>food := food g', game_over := game_over g'\<rparr> \<and>
      k \<le> k' \<and> even (k' - k) \<and>
      int ((k' - k) div 2) \<le> 2 * (board_width cfg * board_height cfg) \<and>
      (board_width cfg * board_height cfg \<le> length_s (snake g) \<longrightarrow>
         game_over g' \<and> k' = k \<and> food g' = food g) \<and>
      ((\<forall>j. int j < 2 * (board_width cfg * board_height cfg) \<longrightarrow>
            sampled_cell cfg rnd (k + 2 * j) \<in> set (segments g)) \<longrightarrow> game_over g') \<and>
      (\<not> game_over g' \<longrightarrow> food g' \<notin> set (segments g')) \<and>
      (2 * (board_width cfg * board_height cfg) \<le> 2147483647 \<and>
       length_s (snake g) < board_width cfg * board_height cfg \<and> \<not> game_over g \<longrightarrow>
         game_over g' =
           (\<forall>j. int j < 2 * (board_width cfg * board_height cfg) \<longrightarrow>
                sampled_cell cfg rnd (k + 2 * j) \<in> set (segments g)) \<and>
         (game_over g' \<longrightarrow>
            int k' = int k + 2 * (2 * (board_width cfg * board_height cfg)) \<and>
            food g' = sampled_cell cfg rnd (k' - 2) \<and>
            food g' \<in> set (segments g')))"
proof -
  define n where "n = board_width cfg * board_height cfg"
  from assms(1,2) have n1: "1 \<le> n" unfolding n_def
    by (metis mult_mono mult_1 zero_le_one order_trans)
  then have n0: "0 \<le> n" by simp
  note le = c_int_le [OF n0]
  show ?thesis
  proof (cases "c_int n \<le> length_s (snake g)")
    case True
    have no: "\<not> length_s (snake g) < n" if "2 * n \<le> 2147483647"
      using True c_int_cells(1) [OF n0 that] by simp
    have early: "generate_food cfg rnd (g, k) = Some (g\<lparr>game_over := True\<rparr>, k)"
      using True by (simp add: generate_food_early n_def)
    show ?thesis
      unfolding n_def [symmetric] early using n0 no by auto
  next
    case False
    then have lt: "length_s (snake g) < c_int n" by simp
    with le have ltn: "length_s (snake g) < n" by simp
    with assms(4) have sz: "length_s (snake g) \<le> int (length (body (snake g)))"
      by (simp add: n_def)
    from generate_food_Some [OF sz lt [unfolded n_def] assms(3), of rnd k]
    obtain g' k' where
      r: "generate_food cfg rnd (g, k) = Some (g', k')"
      and f: "g' = g\<lparr>food := food g', game_over := game_over g'\<rparr>"
      and m: "game_over g \<longrightarrow> game_over g'"
      and k1: "k \<le> k'" and k3: "even (k' - k)"
      and k4: "int ((k' - k) div 2) \<le> max 0 (c_int (c_int n * 2))"
      and l2: "k < k' \<longrightarrow> food g' = sampled_cell cfg rnd (k' - 2)"
      and o1: "game_over g' \<longrightarrow> game_over g \<or> k' = k \<or> food g' \<in> set (segments g)"
      and o2: "\<not> game_over g' \<longrightarrow> food g' \<notin> set (segments g)"
      and o3: "\<not> game_over g \<longrightarrow>
         game_over g' =
           (\<forall>j. int j < c_int (c_int n * 2) \<longrightarrow>
                sampled_cell cfg rnd (k + 2 * j) \<in> set (segments g)) \<and>
         (game_over g' \<longrightarrow> int k' = int k + 2 * max 0 (c_int (c_int n * 2)))"
      unfolding n_def by blast
    have seg: "segments g' = segments g"
      by (subst f) (simp add: segments_def)
    note bl = c_int_bound_le [OF n0]
    from k4 bl have c1: "int ((k' - k) div 2) \<le> 2 * n" by (rule order_trans)
    have c2: "game_over g'"
      if all: "\<forall>j. int j < 2 * n \<longrightarrow> sampled_cell cfg rnd (k + 2 * j) \<in> set (segments g)"
    proof (cases "game_over g")
      case True
      with m show ?thesis by simp
    next
      case False
      have "\<forall>j. int j < c_int (c_int n * 2) \<longrightarrow>
                sampled_cell cfg rnd (k + 2 * j) \<in> set (segments g)"
        using all bl by auto
      with False o3 show ?thesis by simp
    qed
    have c3: "game_over g' =
           (\<forall>j. int j < 2 * n \<longrightarrow> sampled_cell cfg rnd (k + 2 * j) \<in> set (segments g)) \<and>
         (game_over g' \<longrightarrow>
            int k' = int k + 2 * (2 * n) \<and>
            food g' = sampled_cell cfg rnd (k' - 2) \<and>
            food g' \<in> set (segments g'))"
      if fits: "2 * n \<le> 2147483647" and run: "\<not> game_over g"
    proof -
      note ci = c_int_cells [OF n0 fits]
      from o3 run have e: "game_over g' =
           (\<forall>j. int j < 2 * n \<longrightarrow> sampled_cell cfg rnd (k + 2 * j) \<in> set (segments g))"
        and kk: "game_over g' \<longrightarrow> int k' = int k + 2 * (2 * n)"
        using n0 by (simp_all add: ci)
      have "food g' = sampled_cell cfg rnd (k' - 2) \<and> food g' \<in> set (segments g')"
        if over: "game_over g'"
      proof -
        from kk over n1 have "k < k'" by simp
        with l2 o1 over run show ?thesis by (simp add: seg)
      qed
      with e kk show ?thesis by blast
    qed
    show ?thesis
      unfolding n_def [symmetric]
    proof (intro exI conjI)
      show "generate_food cfg rnd (g, k) = Some (g', k')" by (rule r)
      show "g' = g\<lparr>food := food g', game_over := game_over g'\<rparr>" by (rule f)
      show "k \<le> k'" by (rule k1)
      show "even (k' - k)" by (rule k3)
      show "int ((k' - k) div 2) \<le> 2 * n" by (rule c1)
      show "n \<le> length_s (snake g) \<longrightarrow> game_over g' \<and> k' = k \<and> food g' = food g"
        using ltn by simp
      show "(\<forall>j. int j < 2 * n \<longrightarrow> sampled_cell cfg rnd (k + 2 * j) \<in> set (segments g))
              \<longrightarrow> game_over g'" using c2 by blast
      show "\<not> game_over g' \<longrightarrow> food g' \<notin> set (segments g')" using o2 by (simp add: seg)
      show "2 * n \<le> 2147483647 \<and> length_s (snake g) < n \<and> \<not> game_over g \<longrightarrow>
         game_over g' =
           (\<forall>j. int j < 2 * n \<longrightarrow> sampled_cell cfg rnd (k + 2 * j) \<in> set (segments g)) \<and>
         (game_over g' \<longrightarrow>
            int k' = int k + 2 * (2 * n) \<and>
            food g' = sampled_cell cfg rnd (k' - 2) \<and>
            food g' \<in> set (segments g'))" using c3 by blast
    qed
  qed
qed

theorem generate_food_bounded_witness:
  "1 \<le> board_width coiled_cfg \<and> 1 \<le> board_height coiled_cfg \<and>
   0 \<le> length_s (snake (coiled\<lparr>snake := (snake coiled)\<lparr>length_s := 3\<rparr>\<rparr>)) \<and>
   (length_s (snake (coiled\<lparr>snake := (snake coiled)\<lparr>length_s := 3\<rparr>\<rparr>))
      \<le> int (length (body (snake (coiled\<lparr>snake := (snake coiled)\<lparr>length_s := 3\<rparr>\<rparr>))))
    \<or> board_width coiled_cfg * board_height coiled_cfg
        \<le> length_s (snake (coiled\<lparr>snake := (snake coiled)\<lparr>length_s := 3\<rparr>\<rparr>))) \<and>
   2 * (board_width coiled_cfg * board_height coiled_cfg) \<le> 2147483647 \<and>
   length_s (snake (coiled\<lparr>snake := (snake coiled)\<lparr>length_s := 3\<rparr>\<rparr>))
     < board_width coiled_cfg * board_height coiled_cfg \<and>
   \<not> game_over (coiled\<lparr>snake := (snake coiled)\<lparr>length_s := 3\<rparr>\<rparr>) \<and>
   generate_food coiled_cfg (\<lambda>i. if i = 2 then 1 else 0)
       (coiled\<lparr>snake := (snake coiled)\<lparr>length_s := 3\<rparr>\<rparr>, 0)
     = Some (coiled\<lparr>snake := (snake coiled)\<lparr>length_s := 3\<rparr>, food := \<lparr>px = 1, py = 0\<rparr>\<rparr>, 4) \<and>
   generate_food coiled_cfg (\<lambda>i. 0) (coiled\<lparr>snake := (snake coiled)\<lparr>length_s := 3\<rparr>\<rparr>, 0)
     = Some (coiled\<lparr>snake := (snake coiled)\<lparr>length_s := 3\<rparr>, food := \<lparr>px = 0, py = 0\<rparr>,
                    game_over := True\<rparr>, 16) \<and>
   generate_food coiled_cfg (\<lambda>i. 0) (coiled, 0) = Some (coiled\<lparr>game_over := True\<rparr>, 0)"
proof -
  let ?g = "coiled\<lparr>snake := (snake coiled)\<lparr>length_s := 3\<rparr>\<rparr>"
  have a: "1 \<le> board_width coiled_cfg" "1 \<le> board_height coiled_cfg"
    "0 \<le> length_s (snake ?g)"
    "length_s (snake ?g) \<le> int (length (body (snake ?g)))
       \<or> board_width coiled_cfg * board_height coiled_cfg \<le> length_s (snake ?g)"
    by (simp_all add: coiled_cfg_def config_def coiled_def)
  have h: "2 * (board_width coiled_cfg * board_height coiled_cfg) \<le> 2147483647"
    "length_s (snake ?g) < board_width coiled_cfg * board_height coiled_cfg"
    "\<not> game_over ?g"
    by (simp_all add: coiled_cfg_def config_def coiled_def)
  have b: "generate_food coiled_cfg (\<lambda>i. if i = 2 then 1 else 0) (?g, 0)
     = Some (coiled\<lparr>snake := (snake coiled)\<lparr>length_s := 3\<rparr>, food := \<lparr>px = 1, py = 0\<rparr>\<rparr>, 4)"
    by code_simp
  have c: "generate_food coiled_cfg (\<lambda>i. 0) (?g, 0)
     = Some (coiled\<lparr>snake := (snake coiled)\<lparr>length_s := 3\<rparr>, food := \<lparr>px = 0, py = 0\<rparr>,
                    game_over := True\<rparr>, 16)"
    by code_simp
  have d: "generate_food coiled_cfg (\<lambda>i. 0) (coiled, 0) = Some (coiled\<lparr>game_over := True\<rparr>, 0)"
    by code_simp
  from generate_food_bounded [OF a, of "\<lambda>i. if i = 2 then 1 else 0" 0] a h b c d
  show ?thesis by simp
qed

lemma opposite_opposite: "opposite (opposite d) = d"
  by (cases d) simp_all

lemma set_direction_not_opposite:
  "direction (snake (set_direction d g)) \<noteq> opposite (direction (snake g))"
  by (cases d; cases "direction (snake g)") (simp_all add: set_direction_def)

lemma handle_input_not_opposite:
  "direction (snake (fst (handle_input inp g))) \<noteq> opposite (direction (snake g))"
proof -
  have n: "direction (snake g) \<noteq> opposite (direction (snake g))"
    by (cases "direction (snake g)") simp_all
  show ?thesis
    using n by (auto simp: handle_input_def set_direction_not_opposite split: list.splits)
qed

lemma two_turns_reverse:
  "direction (snake g) = RIGHT \<Longrightarrow>
   direction (snake (fst (handle_input ''a'' (fst (handle_input ''w'' g))))) = LEFT"
  by (simp add: handle_input_def set_direction_def)

text \<open>
  C4, on a run where it fails. The game starts with \<open>-w 10 -h 10\<close>; the first move
  tick (at 166666 microseconds) moves the snake to the right. The keys \<open>w\<close> and \<open>a\<close>
  arrive in two later iterations before the next move tick: the first turns the stored
  direction up, the second is compared with that and turns it left. The second move
  tick (at 333332 microseconds) moves left, the reverse of the direction of the first,
  into the second segment, and the game is over.
\<close>

theorem reversal_between_two_move_ticks:
  "(case init_game None 10 10 (\<lambda>i. \<lparr>px = 0, py = 0\<rparr>) (\<lambda>i. 0) (calculate_intervals config) of
      None \<Rightarrow> False
    | Some (cfg, g, k) \<Rightarrow>
        (case main_loop cfg (\<lambda>i. 0)
                [(166666, []), (170000, ''w''), (180000, ''a''), (333332, [])]
                \<lparr>game = g, rand_calls = k, last_render = 0, last_move = 0, stdin = []\<rparr> of
           None \<Rightarrow> False
         | Some (s, ds) \<Rightarrow>
             ds = [RIGHT, LEFT] \<and> game_over (game s) \<and>
             segments (game s) = [\<lparr>px = 6, py = 5\<rparr>, \<lparr>px = 5, py = 5\<rparr>, \<lparr>px = 4, py = 5\<rparr>] \<and>
             direction (snake (game s)) = LEFT \<and> opposite RIGHT = LEFT))"
  by code_simp


section \<open>Growth\<close>

lemma generate_food_frame:
  assumes "0 \<le> length_s (snake g)"
    and "length_s (snake g) \<le> int (length (body (snake g)))
         \<or> c_int (board_width cfg * board_height cfg) \<le> length_s (snake g)"
  shows "\<exists>g' k'. generate_food cfg rnd (g, k) = Some (g', k') \<and>
      g' = g\<lparr>food := food g', game_over := game_over g'\<rparr> \<and>
      (game_over g \<longrightarrow> game_over g') \<and> k \<le> k' \<and>
      (\<not> game_over g' \<longrightarrow>
         food g' \<notin> set (segments g') \<and>
         length_s (snake g) < c_int (board_width cfg * board_height cfg)) \<and>
      (k' = k \<longrightarrow> food g' = food g) \<and>
      (k < k' \<longrightarrow> food g' = sampled_cell cfg rnd (k' - 2)) \<and>
      (game_over g' \<longrightarrow> game_over g \<or> k' = k \<or> food g' \<in> set (segments g')) \<and>
      (c_int (board_width cfg * board_height cfg) \<le> length_s (snake g) \<longrightarrow> k' = k) \<and>
      (\<not> game_over g \<and> length_s (snake g) < c_int (board_width cfg * board_height cfg) \<longrightarrow>
         game_over g' =
           (\<forall>j. int j < c_int (c_int (board_width cfg * board_height cfg) * 2) \<longrightarrow>
                sampled_cell cfg rnd (k + 2 * j) \<in> set (segments g')) \<and>
         (game_over g' \<longrightarrow>
            int k' = int k + 2 * max 0 (c_int (c_int (board_width cfg * board_height cfg) * 2))))"
proof (cases "c_int (board_width cfg * board_height cfg) \<le> length_s (snake g)")
  case True
  then show ?thesis by (simp add: generate_food_early)
next
  case False
  then have lt: "length_s (snake g) < c_int (board_width cfg * board_height cfg)" by simp
  with assms(2) have le: "length_s (snake g) \<le> int (length (body (snake g)))" by simp
  from generate_food_Some [OF le lt assms(1), of rnd k]
  obtain g' k' where
    r: "generate_food cfg rnd (g, k) = Some (g', k')"
    and f: "g' = g\<lparr>food := food g', game_over := game_over g'\<rparr>"
    and m: "game_over g \<longrightarrow> game_over g'"
    and k1: "k \<le> k'"
    and l1: "k' = k \<longrightarrow> food g' = food g"
    and l2: "k < k' \<longrightarrow> food g' = sampled_cell cfg rnd (k' - 2)"
    and o1: "game_over g' \<longrightarrow> game_over g \<or> k' = k \<or> food g' \<in> set (segments g)"
    and o2: "\<not> game_over g' \<longrightarrow> food g' \<notin> set (segments g)"
    and o3: "\<not> game_over g \<longrightarrow>
         game_over g' =
           (\<forall>j. int j < c_int (c_int (board_width cfg * board_height cfg) * 2) \<longrightarrow>
                sampled_cell cfg rnd (k + 2 * j) \<in> set (segments g)) \<and>
         (game_over g' \<longrightarrow>
            int k' = int k + 2 * max 0 (c_int (c_int (board_width cfg * board_height cfg) * 2)))"
    by blast
  have seg: "segments g' = segments g"
    by (subst f) (simp add: segments_def)
  note o = o1 [folded seg] o2 [folded seg] o3 [folded seg]
  from r f m k1 l1 l2 o lt show ?thesis by auto
qed


lemma move_snake_wall:
  "new_head cfg g = Some p \<Longrightarrow> \<not> wraparound_mode cfg \<and> off_board cfg p \<Longrightarrow>
   move_snake cfg rnd (g, k) = Some (g\<lparr>game_over := True\<rparr>, k)"
  by (simp add: move_snake_new_head)

lemma move_snake_passes:
  "new_head cfg g = Some p \<Longrightarrow> \<not> (\<not> wraparound_mode cfg \<and> off_board cfg p) \<Longrightarrow>
   move_snake cfg rnd (g, k) = move_to cfg rnd (g, k) p"
  by (auto simp: move_snake_new_head)



text \<open>
  C2 as stated fails. On the board of six by one cells, when every call of \<open>rand()\<close>
  returns 4, the regular move that eats the food at (4,0) draws the cell (4,0) twelve
  times, gives up and leaves the food under the new head. On the board of four by one
  cells, when every call of \<open>rand()\<close> returns 3, the regular move that eats the food at
  (3,0) makes the snake four segments long, as many as the board has cells, and
  \<open>generate_food\<close> returns without drawing a cell: the food stays under the new head.
\<close>

theorem regular_eat_food_on_snake:
  "init_game None 6 1 (\<lambda>i. \<lparr>px = 0, py = 0\<rparr>) (\<lambda>i. 4) config = Some (row_cfg, row, 2) \<and>
   game_mode row_cfg = MODE_REGULAR \<and> \<not> game_over row \<and>
   new_head row_cfg row = Some (food row) \<and> \<not> off_board row_cfg (food row) \<and>
   food row \<notin> set (tl (segments row)) \<and>
   (case move_snake row_cfg (\<lambda>i. 4) (row, 2) of
      None \<Rightarrow> False
    | Some (g', k') \<Rightarrow>
        food g' \<in> set (segments g') \<and> game_over g' \<and> k' = 26 \<and>
        length_s (snake g') = 4 \<and> score g' = 10) \<and>
   (case init_game None 4 1 (\<lambda>i. \<lparr>px = 0, py = 0\<rparr>) (\<lambda>i. 3) config of
      None \<Rightarrow> False
    | Some (cfg, g, k) \<Rightarrow>
        game_mode cfg = MODE_REGULAR \<and> \<not> game_over g \<and>
        new_head cfg g = Some (food g) \<and> \<not> off_board cfg (food g) \<and>
        food g \<notin> set (tl (segments g)) \<and>
        (case move_snake cfg (\<lambda>i. 3) (g, k) of
           None \<Rightarrow> False
         | Some (g', k') \<Rightarrow>
             food g' \<in> set (segments g') \<and> game_over g' \<and> k' = k \<and>
             length_s (snake g') = 4 \<and> score g' = 10))"
  by code_simp

text \<open>
  C2, amended. In regular mode, when the new head is on the food and hits neither a
  wall nor the snake, \<open>move_snake\<close> grows the snake by exactly one segment, adds exactly
  10 to the score and calls \<open>generate_food\<close>. If \<open>game_over\<close> is clear afterwards, the
  food is on a cell that no segment of the snake after the move occupies. Otherwise
  \<open>generate_food\<close> gave up: when it drew no cell the food is where it was, and when it
  drew cells the food is on the last cell drawn, which the snake after the move
  occupies. On boards where \<open>2 * board_width * board_height\<close> fits an \<open>int\<close> it gives
  up exactly when the grown snake has \<open>board_width * board_height\<close> segments (no cell
  is drawn then) or every one of the \<open>2 * board_width * board_height\<close> cells it draws
  is occupied by the snake after the move.
\<close>

theorem regular_move_eats:
  assumes "well_formed cfg g" and "game_mode cfg = MODE_REGULAR"
    and "new_head cfg g = Some p"
    and "\<not> (\<not> wraparound_mode cfg \<and> off_board cfg p)"
    and "p \<notin> set (tl (segments g))"
    and "p = food g"
  shows "\<exists>g' k'. move_snake cfg rnd (g, k) = Some (g', k') \<and>
      length_s (snake g') = length_s (snake g) + 1 \<and>
      score g' = score g + 10 \<and>
      (\<not> game_over g' \<longrightarrow> food g' \<notin> set (segments g')) \<and>
      k \<le> k' \<and>
      (k' = k \<longrightarrow> food g' = food g) \<and>
      (k < k' \<longrightarrow> food g' = sampled_cell cfg rnd (k' - 2)) \<and>
      (\<not> game_over g \<and> game_over g' \<and> k < k' \<longrightarrow> food g' \<in> set (segments g')) \<and>
      (2 * (board_width cfg * board_height cfg) \<le> 2147483647 \<longrightarrow>
         (board_width cfg * board_height cfg \<le> length_s (snake g) + 1 \<longrightarrow>
            game_over g' \<and> k' = k \<and> food g' = food g) \<and>
         (\<not> game_over g \<longrightarrow>
            game_over g' =
              (board_width cfg * board_height cfg \<le> length_s (snake g) + 1 \<or>
               (\<forall>j. int j < 2 * (board_width cfg * board_height cfg) \<longrightarrow>
                    sampled_cell cfg rnd (k + 2 * j) \<in> set (segments g')))) \<and>
         (\<not> game_over g \<and> game_over g' \<and>
          length_s (snake g) + 1 < board_width cfg * board_height cfg \<longrightarrow>
            int k' = int k + 2 * (2 * (board_width cfg * board_height cfg)) \<and>
            food g' = sampled_cell cfg rnd (k' - 2) \<and>
            food g' \<in> set (segments g')))"
proof -
  define n where "n = board_width cfg * board_height cfg"
  from assms(1) have len: "0 \<le> length_s (snake g)" "1 \<le> length_s (snake g)"
    "length_s (snake g) \<le> int (length (body (snake g)))"
    and mx: "max_length (snake g) = n" "int (length (body (snake g))) = max_length (snake g)"
    "length_s (snake g) \<le> n"
    by (simp_all add: well_formed_def n_def)
  from len(2) mx(3) have n1: "1 \<le> n" and n0: "0 \<le> n" by simp_all
  let ?g1 = "g\<lparr>snake := (snake g)\<lparr>body := moved_body p g, length_s := length_s (snake g) + 1\<rparr>,
                score := score g + 10\<rparr>"
  from move_to_regular [OF len(2,3) assms(5,2), of rnd k] assms(6)
  have m: "move_snake cfg rnd (g, k) = generate_food cfg rnd (?g1, k)"
    by (simp add: move_snake_passes [OF assms(3,4)])
  have ml: "length (moved_body p g) = length (body (snake g))"
    using len by (simp add: moved_body_def)
  have a: "0 \<le> length_s (snake ?g1)"
    "length_s (snake ?g1) \<le> int (length (body (snake ?g1)))
       \<or> c_int (board_width cfg * board_height cfg) \<le> length_s (snake ?g1)"
    using len mx ml c_int_le [OF n0] unfolding n_def by auto
  from generate_food_frame [OF a, of rnd k]
  obtain g' k' where r: "generate_food cfg rnd (?g1, k) = Some (g', k')"
    and f: "g' = ?g1\<lparr>food := food g', game_over := game_over g'\<rparr>"
    and k1: "k \<le> k'"
    and o1: "\<not> game_over g' \<longrightarrow> food g' \<notin> set (segments g') \<and>
               length_s (snake ?g1) < c_int n"
    and l1: "k' = k \<longrightarrow> food g' = food ?g1"
    and l2: "k < k' \<longrightarrow> food g' = sampled_cell cfg rnd (k' - 2)"
    and o4: "game_over g' \<longrightarrow> game_over ?g1 \<or> k' = k \<or> food g' \<in> set (segments g')"
    and e1: "c_int n \<le> length_s (snake ?g1) \<longrightarrow> k' = k"
    and o2: "\<not> game_over ?g1 \<and> length_s (snake ?g1) < c_int n \<longrightarrow>
         game_over g' = (\<forall>j. int j < c_int (c_int n * 2) \<longrightarrow>
                            sampled_cell cfg rnd (k + 2 * j) \<in> set (segments g')) \<and>
         (game_over g' \<longrightarrow> int k' = int k + 2 * max 0 (c_int (c_int n * 2)))"
    unfolding n_def by blast
  have e: "length_s (snake g') = length_s (snake g) + 1" "score g' = score g + 10"
    by (subst f, simp)+
  have c1: "\<not> game_over g' \<longrightarrow> food g' \<notin> set (segments g')" using o1 by simp
  have c2: "k' = k \<longrightarrow> food g' = food g" using l1 by simp
  have c3: "\<not> game_over g \<and> game_over g' \<and> k < k' \<longrightarrow> food g' \<in> set (segments g')"
    using o4 by auto
  have c4: "(n \<le> length_s (snake g) + 1 \<longrightarrow> game_over g' \<and> k' = k \<and> food g' = food g) \<and>
         (\<not> game_over g \<longrightarrow>
            game_over g' =
              (n \<le> length_s (snake g) + 1 \<or>
               (\<forall>j. int j < 2 * n \<longrightarrow>
                    sampled_cell cfg rnd (k + 2 * j) \<in> set (segments g')))) \<and>
         (\<not> game_over g \<and> game_over g' \<and> length_s (snake g) + 1 < n \<longrightarrow>
            int k' = int k + 2 * (2 * n) \<and>
            food g' = sampled_cell cfg rnd (k' - 2) \<and>
            food g' \<in> set (segments g'))"
    if fits: "2 * n \<le> 2147483647"
  proof -
    note ci = c_int_cells [OF n0 fits]
    have full: "game_over g' \<and> k' = k \<and> food g' = food g" if "n \<le> length_s (snake g) + 1"
      using that o1 e1 l1 by (auto simp: ci)
    have part: "game_over g' = (\<forall>j. int j < 2 * n \<longrightarrow>
                    sampled_cell cfg rnd (k + 2 * j) \<in> set (segments g'))"
      "game_over g' \<longrightarrow> int k' = int k + 2 * (2 * n)"
      if "\<not> game_over g" "length_s (snake g) + 1 < n"
      using that o2 n0 by (simp_all add: ci)
    have last: "int k' = int k + 2 * (2 * n) \<and>
            food g' = sampled_cell cfg rnd (k' - 2) \<and> food g' \<in> set (segments g')"
      if "\<not> game_over g" "game_over g'" "length_s (snake g) + 1 < n"
    proof -
      from part(2) [OF that(1,3)] that(2) have kk: "int k' = int k + 2 * (2 * n)" by simp
      with n1 have "k < k'" by simp
      with kk l2 c3 that show ?thesis by simp
    qed
    from full part last show ?thesis by (cases "n \<le> length_s (snake g) + 1") auto
  qed
  have mv: "move_snake cfg rnd (g, k) = Some (g', k')" using m r by simp
  show ?thesis
    unfolding n_def [symmetric]
  proof (intro exI conjI)
    show "move_snake cfg rnd (g, k) = Some (g', k')" by (rule mv)
    show "length_s (snake g') = length_s (snake g) + 1" by (rule e)
    show "score g' = score g + 10" by (rule e)
    show "\<not> game_over g' \<longrightarrow> food g' \<notin> set (segments g')" by (rule c1)
    show "k \<le> k'" by (rule k1)
    show "k' = k \<longrightarrow> food g' = food g" by (rule c2)
    show "k < k' \<longrightarrow> food g' = sampled_cell cfg rnd (k' - 2)" by (rule l2)
    show "\<not> game_over g \<and> game_over g' \<and> k < k' \<longrightarrow> food g' \<in> set (segments g')" by (rule c3)
    show "2 * n \<le> 2147483647 \<longrightarrow>
         (n \<le> length_s (snake g) + 1 \<longrightarrow> game_over g' \<and> k' = k \<and> food g' = food g) \<and>
         (\<not> game_over g \<longrightarrow>
            game_over g' =
              (n \<le> length_s (snake g) + 1 \<or>
               (\<forall>j. int j < 2 * n \<longrightarrow>
                    sampled_cell cfg rnd (k + 2 * j) \<in> set (segments g')))) \<and>
         (\<not> game_over g \<and> game_over g' \<and> length_s (snake g) + 1 < n \<longrightarrow>
            int k' = int k + 2 * (2 * n) \<and>
            food g' = sampled_cell cfg rnd (k' - 2) \<and>
            food g' \<in> set (segments g'))"
      using c4 by blast
  qed
qed

theorem regular_move_eats_witness:
  "well_formed row_cfg row \<and> game_mode row_cfg = MODE_REGULAR \<and>
   new_head row_cfg row = Some (food row) \<and>
   \<not> (\<not> wraparound_mode row_cfg \<and> off_board row_cfg (food row)) \<and>
   food row \<notin> set (tl (segments row)) \<and> \<not> game_over row \<and>
   2 * (board_width row_cfg * board_height row_cfg) \<le> 2147483647 \<and>
   length_s (snake row) + 1 < board_width row_cfg * board_height row_cfg \<and>
   (\<exists>g'. move_snake row_cfg (\<lambda>i. 5) (row, 2) = Some (g', 4) \<and>
      \<not> game_over g' \<and> length_s (snake g') = 4 \<and> score g' = 10 \<and>
      food g' = \<lparr>px = 5, py = 0\<rparr> \<and> food g' \<notin> set (segments g')) \<and>
   (\<exists>g'. move_snake row_cfg (\<lambda>i. 4) (row, 2) = Some (g', 26) \<and>
      game_over g' \<and> length_s (snake g') = 4 \<and> score g' = 10 \<and>
      food g' = sampled_cell row_cfg (\<lambda>i. 4) 24 \<and> food g' \<in> set (segments g'))"
proof -
  let ?b = "[\<lparr>px = 4, py = 0\<rparr>, \<lparr>px = 3, py = 0\<rparr>,
             \<lparr>px = 2, py = 0\<rparr>, \<lparr>px = 0, py = 0\<rparr>, \<lparr>px = 0, py = 0\<rparr>, \<lparr>px = 0, py = 0\<rparr>]"
  have w: "well_formed row_cfg row"
    by (simp add: well_formed_def row_def row_cfg_def config_def)
  have m: "game_mode row_cfg = MODE_REGULAR" by (simp add: row_cfg_def config_def)
  have n: "new_head row_cfg row = Some (food row)"
    by (simp add: new_head_def row_def row_cfg_def config_def rd_def)
  have o: "\<not> (\<not> wraparound_mode row_cfg \<and> off_board row_cfg (food row))"
    by (simp add: off_board_def row_def row_cfg_def config_def)
  have t: "food row \<notin> set (tl (segments row))"
    by (simp add: segments_def row_def)
  have h: "\<not> game_over row" "2 * (board_width row_cfg * board_height row_cfg) \<le> 2147483647"
    "length_s (snake row) + 1 < board_width row_cfg * board_height row_cfg"
    by (simp_all add: row_def row_cfg_def config_def)
  have e: "move_snake row_cfg (\<lambda>i. 5) (row, 2)
     = Some (row\<lparr>snake := (snake row)\<lparr>body := ?b, length_s := 4\<rparr>, score := 10,
                  food := \<lparr>px = 5, py = 0\<rparr>\<rparr>, 4)"
    by code_simp
  have e': "move_snake row_cfg (\<lambda>i. 4) (row, 2)
     = Some (row\<lparr>snake := (snake row)\<lparr>body := ?b, length_s := 4\<rparr>, score := 10,
                  food := \<lparr>px = 4, py = 0\<rparr>, game_over := True\<rparr>, 26)"
    by code_simp
  have s: "sampled_cell row_cfg (\<lambda>i. 4) 24 = \<lparr>px = 4, py = 0\<rparr>"
    by (simp add: sampled_cell_def c_mod_def c_div_def row_cfg_def config_def)
  from regular_move_eats [OF w m n o t refl, of "\<lambda>i. 4" 2] e' h
  have "food (row\<lparr>snake := (snake row)\<lparr>body := ?b, length_s := 4\<rparr>, score := 10,
                  food := \<lparr>px = 4, py = 0\<rparr>, game_over := True\<rparr>)
        = sampled_cell row_cfg (\<lambda>i. 4) (26 - 2)"
    by auto
  with w m n o t h e e' s show ?thesis
    by (simp add: segments_def row_def)
qed

section \<open>Rendering and input in closed form\<close>

lemma cell_scan_closed:
  "0 \<le> i \<Longrightarrow> length_s (snake g) \<le> int (length (body (snake g))) \<Longrightarrow>
   cell_scan g cx cy i =
     Some (if \<lparr>px = cx, py = cy\<rparr> \<in> set (drop (nat i) (segments g))
           then (if i = 0 \<and> hd (segments g) = \<lparr>px = cx, py = cy\<rparr> then Snake_Head else Snake_Body)
           else (if px (food g) = cx \<and> py (food g) = cy then Food_Glyph else Empty_Cell))"
proof (induction g cx cy i rule: cell_scan.induct)
  case (1 g cx cy i)
  let ?n = "length_s (snake g)"
  let ?c = "\<lparr>px = cx, py = cy\<rparr>"
  show ?case
  proof (cases "i < ?n")
    case False
    with "1.prems" have "drop (nat i) (segments g) = []" by (simp add: segments_def)
    with False show ?thesis by (simp add: cell_scan.simps [of g cx cy i])
  next
    case True
    with "1.prems" have r: "rd (body (snake g)) i = Some (body (snake g) ! nat i)"
      by (simp add: rd_def)
    from True "1.prems" have lt: "nat i < length (segments g)" by (simp add: segments_def)
    then have d: "drop (nat i) (segments g) = segments g ! nat i # drop (Suc (nat i)) (segments g)"
      by (rule Cons_nth_drop_Suc [symmetric])
    from True "1.prems" have nth: "segments g ! nat i = body (snake g) ! nat i"
      by (simp add: segments_def)
    from "1.prems" have suc: "Suc (nat i) = nat (i + 1)" by simp
    show ?thesis
    proof (cases "px (body (snake g) ! nat i) = cx \<and> py (body (snake g) ! nat i) = cy")
      case True
      then have e: "body (snake g) ! nat i = ?c" by (simp add: Point_eq_iff)
      have h: "i = 0 \<Longrightarrow> hd (segments g) = ?c"
        using lt e nth by (simp add: hd_conv_nth)
      from True \<open>i < ?n\<close> r d e nth h show ?thesis
        by (simp add: cell_scan.simps [of g cx cy i])
    next
      case False
      then have ne: "body (snake g) ! nat i \<noteq> ?c" by (auto simp: Point_eq_iff)
      have h: "i = 0 \<Longrightarrow> hd (segments g) \<noteq> ?c"
        using lt ne nth by (simp add: hd_conv_nth)
      from False \<open>i < ?n\<close> r have "cell_scan g cx cy i = cell_scan g cx cy (i + 1)"
        by (subst cell_scan.simps) auto
      also have "\<dots> = Some (if ?c \<in> set (drop (nat (i + 1)) (segments g))
           then (if i + 1 = 0 \<and> hd (segments g) = ?c then Snake_Head else Snake_Body)
           else (if px (food g) = cx \<and> py (food g) = cy then Food_Glyph else Empty_Cell))"
        using "1.IH" [OF \<open>i < ?n\<close> r False] "1.prems" by simp
      finally show ?thesis using d ne nth suc "1.prems"(1) h by auto
    qed
  qed
qed

lemma draw_cell_segment:
  assumes "length_s (snake g) \<le> int (length (body (snake g)))"
    and "p \<in> set (segments g)" and "\<not> off_board cfg p"
  shows "draw_cell g cfg (px p) (py p) = Some Snake_Head
         \<or> draw_cell g cfg (px p) (py p) = Some Snake_Body"
proof -
  from assms(3) have "draw_cell g cfg (px p) (py p) = cell_scan g (px p) (py p) 0"
    by (auto simp: draw_cell_def off_board_def)
  moreover have "\<lparr>px = px p, py = py p\<rparr> = p" by simp
  ultimately show ?thesis
    using cell_scan_closed [OF _ assms(1), of 0 "px p" "py p"] assms(2) by simp
qed

lemma draw_cell_closed:
  assumes "length_s (snake g) \<le> int (length (body (snake g)))"
  shows "draw_cell g cfg cx cy =
     Some (if cx = -1 \<or> cx = board_width cfg \<or> cy = -1 \<or> cy = board_height cfg then Wall
           else if \<lparr>px = cx, py = cy\<rparr> \<in> set (segments g)
           then (if hd (segments g) = \<lparr>px = cx, py = cy\<rparr> then Snake_Head else Snake_Body)
           else if food g = \<lparr>px = cx, py = cy\<rparr> then Food_Glyph else Empty_Cell)"
proof -
  have "(px (food g) = cx \<and> py (food g) = cy) = (food g = \<lparr>px = cx, py = cy\<rparr>)"
    by (auto simp: Point_eq_iff)
  then show ?thesis
    using cell_scan_closed [OF _ assms, of 0 cx cy] by (simp add: draw_cell_def)
qed

lemma handle_input_frame:
  "\<exists>d go pa. fst (handle_input inp g)
     = g\<lparr>snake := (snake g)\<lparr>direction := d\<rparr>, game_over := go, paused := pa\<rparr>"
proof -
  have keep: "\<exists>d go pa. g = g\<lparr>snake := (snake g)\<lparr>direction := d\<rparr>, game_over := go, paused := pa\<rparr>"
    by (rule exI [of _ "direction (snake g)"], rule exI [of _ "game_over g"],
        rule exI [of _ "paused g"]) simp
  have turn: "\<exists>d go pa. set_direction e g
      = g\<lparr>snake := (snake g)\<lparr>direction := d\<rparr>, game_over := go, paused := pa\<rparr>" for e
    by (rule exI [of _ "direction (snake (set_direction e g))"], rule exI [of _ "game_over g"],
        rule exI [of _ "paused g"]) (simp add: set_direction_def)
  have quit: "\<exists>d go pa. g\<lparr>game_over := True\<rparr>
      = g\<lparr>snake := (snake g)\<lparr>direction := d\<rparr>, game_over := go, paused := pa\<rparr>"
    by (rule exI [of _ "direction (snake g)"], rule exI [of _ True],
        rule exI [of _ "paused g"]) simp
  have pause: "\<exists>d go pa. g\<lparr>paused := \<not> paused g\<rparr>
      = g\<lparr>snake := (snake g)\<lparr>direction := d\<rparr>, game_over := go, paused := pa\<rparr>"
    by (rule exI [of _ "direction (snake g)"], rule exI [of _ "game_over g"],
        rule exI [of _ "\<not> paused g"]) simp
  show ?thesis
    unfolding handle_input_def
    using keep turn quit pause by (simp split: list.splits)
qed

lemma handle_input_keeps:
  "well_formed cfg (fst (handle_input inp g)) = well_formed cfg g"
  "allocated cfg (fst (handle_input inp g)) = allocated cfg g"
  "uninitialised_beyond mem (fst (handle_input inp g)) = uninitialised_beyond mem g"
  "segments (fst (handle_input inp g)) = segments g"
proof -
  from handle_input_frame [of inp g] obtain d go pa where
    e: "fst (handle_input inp g)
          = g\<lparr>snake := (snake g)\<lparr>direction := d\<rparr>, game_over := go, paused := pa\<rparr>"
    by blast
  show "well_formed cfg (fst (handle_input inp g)) = well_formed cfg g"
    "allocated cfg (fst (handle_input inp g)) = allocated cfg g"
    "uninitialised_beyond mem (fst (handle_input inp g)) = uninitialised_beyond mem g"
    "segments (fst (handle_input inp g)) = segments g"
    unfolding e
    by (simp_all add: well_formed_def allocated_def uninitialised_beyond_def segments_def)
qed


section \<open>Invariants of the running game\<close>

lemma init_game_allocated:
  assumes "init_game ws ow oh mem rnd cfg0 = Some (cfg, g, k)"
  shows "allocated cfg g \<and> uninitialised_beyond mem g \<and> \<not> game_over g \<and>
         length_s (snake g) = 3"
proof -
  define c where "c = get_terminal_size ws ow oh cfg0"
  define n where "n = c_int (board_width c * board_height c)"
  have big: "3 \<le> n"
  proof (rule ccontr)
    assume "\<not> 3 \<le> n"
    then have "c_int (board_width c * board_height c) < 3" by (simp add: n_def)
    from init_game_too_small [OF c_def this, of mem rnd] assms show False by simp
  qed
  from init_game_closed [OF c_def big [unfolded n_def], of mem rnd] assms
  have cfg: "cfg = c"
    and g: "g = \<lparr>food = sampled_cell c rnd 0,
            snake = \<lparr>body = \<lparr>px = c_div (board_width c) 2, py = c_div (board_height c) 2\<rparr>
                            # \<lparr>px = c_div (board_width c) 2 - 1, py = c_div (board_height c) 2\<rparr>
                            # \<lparr>px = c_div (board_width c) 2 - 2, py = c_div (board_height c) 2\<rparr>
                            # map mem [3..<nat n],
                     length_s = 3, max_length = n,
                     direction = RIGHT\<rparr>,
            score = 0, game_over = False, paused = False\<rparr>"
    by (simp_all add: n_def)
  have three: "Suc (Suc (Suc 0)) = 3" by simp
  from big have n: "3 \<le> nat n" by simp
  then have len: "Suc (Suc (Suc (nat n - 3))) = nat n" by simp
  from big n show ?thesis
    unfolding cfg g
    by (simp add: allocated_def uninitialised_beyond_def len three n_def [symmetric])
qed

lemma moved_body_length:
  "1 \<le> length_s (snake g) \<Longrightarrow> length_s (snake g) \<le> int (length (body (snake g))) \<Longrightarrow>
   length (moved_body p g) = length (body (snake g))"
  by (simp add: moved_body_def)

lemma moved_body_drop:
  assumes "1 \<le> length_s (snake g)" "length_s (snake g) \<le> int (length (body (snake g)))"
    and "nat (length_s (snake g)) \<le> m"
  shows "drop m (moved_body p g) = drop m (body (snake g))"
proof -
  define n where "n = nat (length_s (snake g))"
  from assms(1,2) have n: "1 \<le> n" "n \<le> length (body (snake g))" by (simp_all add: n_def)
  then have l: "length (p # take (n - 1) (body (snake g))) = n" by simp
  from assms(3) obtain d where m: "m = n + d"
    unfolding n_def [symmetric] using le_Suc_ex by blast
  have "drop m (moved_body p g)
        = drop (n + d) ((p # take (n - 1) (body (snake g))) @ drop n (body (snake g)))"
    by (simp add: moved_body_def n_def m)
  also have "\<dots> = drop d (drop n (body (snake g)))"
    using l by (metis add.commute append_eq_conv_conj drop_drop)
  also have "\<dots> = drop m (body (snake g))" by (simp add: m add.commute)
  finally show ?thesis .
qed

lemma moved_body_take:
  assumes "1 \<le> length_s (snake g)" "length_s (snake g) \<le> int (length (body (snake g)))"
  shows "take (nat (length_s (snake g))) (moved_body p g) = p # butlast (segments g)"
proof -
  define n where "n = nat (length_s (snake g))"
  from assms have n: "1 \<le> n" "n \<le> length (body (snake g))" by (simp_all add: n_def)
  then have l: "length (p # take (n - 1) (body (snake g))) = n" by simp
  have b: "butlast (take n (body (snake g))) = take (n - 1) (body (snake g))"
    using n by (simp add: butlast_take)
  have "take n ((p # take (n - 1) (body (snake g))) @ drop n (body (snake g)))
        = p # take (n - 1) (body (snake g))"
    using l by (metis append_eq_conv_conj)
  then show ?thesis
    unfolding moved_body_def segments_def n_def [symmetric] b by simp
qed


lemma uninitialised_beyond_grow:
  assumes "uninitialised_beyond mem g"
    and "1 \<le> length_s (snake g)" "length_s (snake g) \<le> int (length (body (snake g)))"
  shows "uninitialised_beyond mem
           (g\<lparr>snake := (snake g)\<lparr>body := moved_body p g, length_s := length_s (snake g) + 1\<rparr>,
              score := sc\<rparr>)"
proof -
  define n where "n = nat (length_s (snake g))"
  from assms(2) have s: "nat (length_s (snake g) + 1) = Suc n" by (simp add: n_def)
  from assms(1) have u: "drop n (body (snake g)) = map mem [n..<length (body (snake g))]"
    by (simp add: uninitialised_beyond_def n_def)
  have "drop (Suc n) (moved_body p g) = drop (Suc n) (body (snake g))"
    using moved_body_drop [OF assms(2,3), of "Suc n" p] by (simp add: n_def)
  also have "\<dots> = drop 1 (drop n (body (snake g)))" by simp
  also have "\<dots> = map mem (drop 1 [n..<length (body (snake g))])"
    unfolding u by (simp only: drop_map)
  also have "\<dots> = map mem [Suc n..<length (body (snake g))]"
    by (simp only: drop_upt) simp
  finally show ?thesis
    using moved_body_length [OF assms(2,3), of p]
    by (simp add: uninitialised_beyond_def s)
qed

lemma uninitialised_beyond_shift:
  assumes "uninitialised_beyond mem g"
    and "1 \<le> length_s (snake g)" "length_s (snake g) \<le> int (length (body (snake g)))"
  shows "uninitialised_beyond mem (g\<lparr>snake := (snake g)\<lparr>body := moved_body p g\<rparr>\<rparr>)"
  using assms moved_body_drop [OF assms(2,3) order_refl, of p] moved_body_length [OF assms(2,3), of p]
  by (simp add: uninitialised_beyond_def)

lemma fits_new_head:
  assumes "1 \<le> length_s (snake g)" and "length_s (snake g) \<le> int (length (body (snake g)))"
  shows "\<exists>p. new_head cfg g = Some p"
proof -
  from assms have "body (snake g) \<noteq> []" by auto
  then show ?thesis by (simp add: new_head_def rd_def Let_def)
qed

lemma regular_move_invariant:
  assumes "allocated cfg g" and "uninitialised_beyond mem g"
    and "game_mode cfg = MODE_REGULAR"
    and "move_snake cfg rnd (g, k) = Some (g', k')"
  shows "uninitialised_beyond mem g' \<and> (\<not> game_over g' \<longrightarrow> allocated cfg g')"
proof -
  from assms(1) have len: "0 \<le> length_s (snake g)" "1 \<le> length_s (snake g)"
    "length_s (snake g) \<le> int (length (body (snake g)))"
    and mx: "max_length (snake g) = c_int (board_width cfg * board_height cfg)"
    "int (length (body (snake g))) = max_length (snake g)"
    by (simp_all add: allocated_def)
  from fits_new_head [OF len(2,3)] obtain p where nh: "new_head cfg g = Some p"
    by blast
  have over: ?thesis if "g' = g\<lparr>game_over := True\<rparr>"
    using assms(2) unfolding that by (simp add: uninitialised_beyond_def)
  consider (wall) "\<not> wraparound_mode cfg \<and> off_board cfg p"
    | (hit) "\<not> (\<not> wraparound_mode cfg \<and> off_board cfg p)" "p \<in> set (tl (segments g))"
    | (plain) "\<not> (\<not> wraparound_mode cfg \<and> off_board cfg p)" "p \<notin> set (tl (segments g))"
        "p \<noteq> food g"
    | (eat) "\<not> (\<not> wraparound_mode cfg \<and> off_board cfg p)" "p \<notin> set (tl (segments g))"
        "p = food g"
    by fastforce
  then show ?thesis
  proof cases
    case wall
    with assms(4) have "g' = g\<lparr>game_over := True\<rparr>" by (simp add: move_snake_wall [OF nh])
    then show ?thesis by (rule over)
  next
    case hit
    with assms(4) have "g' = g\<lparr>game_over := True\<rparr>"
      using move_to_hit [OF len(3) hit(2), of cfg rnd k] by (simp add: move_snake_passes [OF nh hit(1)])
    then show ?thesis by (rule over)
  next
    case plain
    from move_to_regular [OF len(2,3) plain(2) assms(3), of rnd k] plain(3) assms(4)
    have g': "g' = g\<lparr>snake := (snake g)\<lparr>body := moved_body p g\<rparr>\<rparr>"
      by (simp add: move_snake_passes [OF nh plain(1)])
    have "allocated cfg g'"
      using assms(1) moved_body_length [OF len(2,3), of p] unfolding g'
      by (simp add: allocated_def)
    with uninitialised_beyond_shift [OF assms(2) len(2,3), of p] show ?thesis
      unfolding g' by simp
  next
    case eat
    let ?g1 = "g\<lparr>snake := (snake g)\<lparr>body := moved_body p g, length_s := length_s (snake g) + 1\<rparr>,
                  score := score g + 10\<rparr>"
    from move_to_regular [OF len(2,3) eat(2) assms(3), of rnd k] eat(3) assms(4)
    have m: "generate_food cfg rnd (?g1, k) = Some (g', k')"
      by (simp add: move_snake_passes [OF nh eat(1)])
    note ml = moved_body_length [OF len(2,3), of p]
    with len mx have a: "0 \<le> length_s (snake ?g1)"
      "length_s (snake ?g1) \<le> int (length (body (snake ?g1)))
         \<or> c_int (board_width cfg * board_height cfg) \<le> length_s (snake ?g1)"
      by auto
    from generate_food_frame [OF a, of rnd k] m
    have f: "g' = ?g1\<lparr>food := food g', game_over := game_over g'\<rparr>"
      and o: "\<not> game_over g' \<longrightarrow>
                length_s (snake ?g1) < c_int (board_width cfg * board_height cfg)"
      by auto
    have u: "uninitialised_beyond mem g'"
      using uninitialised_beyond_grow [OF assms(2) len(2,3), where p = p and sc = "score g + 10"]
      by (subst f) (simp add: uninitialised_beyond_def)
    have "allocated cfg g'" if "\<not> game_over g'"
      using o that len mx ml by (subst f) (simp add: allocated_def)
    with u show ?thesis by simp
  qed
qed

lemma loop_body_invariant:
  assumes "loop_invariant cfg mem s" and "\<not> game_over (game s)"
    and "game_mode cfg = MODE_REGULAR"
    and "loop_body cfg rnd t s = Some (s', moved, frame)"
  shows "loop_invariant cfg mem s'"
proof -
  define g1 where "g1 = fst (handle_input (stdin s) (game s))"
  from assms(1,2) have w1: "allocated cfg g1" and u1: "uninitialised_beyond mem g1"
    by (simp_all add: g1_def handle_input_keeps loop_invariant_def)
  from assms(4) have "game s' = g1 \<or> (\<exists>k k'. move_snake cfg rnd (g1, k) = Some (game s', k'))"
    by (auto simp: loop_body_def g1_def split: prod.splits if_splits Option.bind_splits)
  then show ?thesis
  proof
    assume "game s' = g1"
    with w1 u1 show ?thesis by (simp add: loop_invariant_def)
  next
    assume "\<exists>k k'. move_snake cfg rnd (g1, k) = Some (game s', k')"
    then obtain k k' where "move_snake cfg rnd (g1, k) = Some (game s', k')" by blast
    from regular_move_invariant [OF w1 u1 assms(3) this] show ?thesis
      by (simp add: loop_invariant_def)
  qed
qed

lemma main_loop_invariant:
  assumes "game_mode cfg = MODE_REGULAR"
  shows "loop_invariant cfg mem s \<Longrightarrow> main_loop cfg rnd sched s = Some (s', ds) \<Longrightarrow>
         loop_invariant cfg mem s'"
proof (induction sched arbitrary: s s' ds)
  case Nil
  then show ?case by simp
next
  case (Cons e es)
  obtain t arrived where e: "e = (t, arrived)" by (cases e)
  show ?case
  proof (cases "game_over (game s)")
    case True
    with Cons.prems show ?thesis by (simp add: e)
  next
    case False
    let ?s = "s\<lparr>stdin := stdin s @ arrived\<rparr>"
    from Cons.prems(2) False obtain s1 moved frame ds1 where
      b: "loop_body cfg rnd t ?s = Some (s1, moved, frame)"
      and r: "main_loop cfg rnd es s1 = Some (s', ds1)"
      by (auto simp: e split: option.splits prod.splits)
    from Cons.prems(1) have i: "loop_invariant cfg mem ?s" by (simp add: loop_invariant_def)
    from False have n: "\<not> game_over (game ?s)" by simp
    from loop_body_invariant [OF i n assms b] have "loop_invariant cfg mem s1" .
    from Cons.IH [OF this r] show ?thesis .
  qed
qed


section \<open>The slot behind the snake\<close>

lemma reachable_uninitialised:
  assumes "init_game ws ow oh mem rnd cfg0 = Some (cfg, g0, k0)"
    and "game_mode cfg = MODE_REGULAR"
    and "main_loop cfg rnd sched
           \<lparr>game = g0, rand_calls = k0, last_render = 0, last_move = 0, stdin = []\<rparr>
         = Some (s, ds)"
    and "length_s (snake (game s)) < int (length (body (snake (game s))))"
    and "0 \<le> length_s (snake (game s))"
  shows "body (snake (game s)) ! nat (length_s (snake (game s)))
         = mem (nat (length_s (snake (game s))))"
proof -
  from init_game_allocated [OF assms(1)]
  have "loop_invariant cfg mem
          \<lparr>game = g0, rand_calls = k0, last_render = 0, last_move = 0, stdin = []\<rparr>"
    by (simp add: loop_invariant_def)
  from main_loop_invariant [OF assms(2) this assms(3)]
  have u: "drop (nat (length_s (snake (game s)))) (body (snake (game s)))
           = map mem [nat (length_s (snake (game s)))..<length (body (snake (game s)))]"
    by (simp add: loop_invariant_def uninitialised_beyond_def)
  define n where "n = nat (length_s (snake (game s)))"
  from assms(4,5) have lt: "n < length (body (snake (game s)))" by (simp add: n_def)
  then have "body (snake (game s)) ! n = drop n (body (snake (game s))) ! 0" by simp
  also have "\<dots> = map mem [n..<length (body (snake (game s)))] ! 0"
    using u by (simp add: n_def)
  also have "\<dots> = mem n" using lt by simp
  finally show ?thesis by (simp add: n_def)
qed

text \<open>
  C10. In regular mode the move that eats the food writes the slots 0 to
  \<open>length - 1\<close> of the buffer and then increments \<open>length\<close>: the slot at the old
  \<open>length\<close> keeps the value \<open>q\<close> it had, and \<open>q\<close> becomes the last segment of the
  snake, behind the old segments without the old tail. The renderer reads it: every
  cell of the frame after the move is drawn from the new head, the old segments without
  the old tail, and \<open>q\<close>, so that the cell \<open>q\<close> shows a body glyph, and the cell that
  the old tail left shows no snake unless one of these segments lies on it.
  \<open>generate_food\<close> (called by the same move) treats \<open>q\<close> as occupied, and the next move
  ends the game when its new head is \<open>q\<close>. In every state that the main loop reaches
  from \<open>init_game\<close>, \<open>q\<close> is what the memory held when \<open>malloc\<close> returned it: no
  statement of the program has written the slot.
\<close>

theorem regular_eat_exposes_unwritten_slot:
  assumes "well_formed cfg g" and "game_mode cfg = MODE_REGULAR"
    and "new_head cfg g = Some p"
    and "\<not> (\<not> wraparound_mode cfg \<and> off_board cfg p)"
    and "p \<notin> set (tl (segments g))" and "p = food g"
    and "length_s (snake g) < max_length (snake g)"
    and "q = body (snake g) ! nat (length_s (snake g))"
  shows "\<exists>g' k'. move_snake cfg rnd (g, k) = Some (g', k') \<and>
      length_s (snake g') = length_s (snake g) + 1 \<and>
      body (snake g') ! nat (length_s (snake g)) = q \<and>
      segments g' = p # butlast (segments g) @ [q] \<and>
      last (segments g') = q \<and>
      (\<forall>cx cy. draw_cell g' cfg cx cy =
         Some (if cx = -1 \<or> cx = board_width cfg \<or> cy = -1 \<or> cy = board_height cfg then Wall
               else if \<lparr>px = cx, py = cy\<rparr> = p then Snake_Head
               else if \<lparr>px = cx, py = cy\<rparr> \<in> set (butlast (segments g))
                       \<or> \<lparr>px = cx, py = cy\<rparr> = q then Snake_Body
               else if food g' = \<lparr>px = cx, py = cy\<rparr> then Food_Glyph
               else Empty_Cell)) \<and>
      (\<not> off_board cfg q \<and> q \<noteq> p \<longrightarrow> draw_cell g' cfg (px q) (py q) = Some Snake_Body) \<and>
      (\<not> off_board cfg (last (segments g)) \<and> last (segments g) \<noteq> p \<and>
       last (segments g) \<notin> set (butlast (segments g)) \<and> last (segments g) \<noteq> q \<longrightarrow>
         draw_cell g' cfg (px (last (segments g))) (py (last (segments g)))
           = Some (if food g' = last (segments g) then Food_Glyph else Empty_Cell)) \<and>
      (\<not> game_over g' \<longrightarrow> food g' \<noteq> q) \<and>
      (new_head cfg g' = Some q \<longrightarrow>
         move_snake cfg rnd (g', k') = Some (g'\<lparr>game_over := True\<rparr>, k')) \<and>
      (\<forall>ws ow oh mem cfg0 g0 k0 sched s ds.
         init_game ws ow oh mem rnd cfg0 = Some (cfg, g0, k0) \<and>
         main_loop cfg rnd sched
           \<lparr>game = g0, rand_calls = k0, last_render = 0, last_move = 0, stdin = []\<rparr>
           = Some (s, ds) \<and>
         game s = g \<longrightarrow> q = mem (nat (length_s (snake g))))"
proof -
  define n where "n = nat (length_s (snake g))"
  from assms(1) have len: "0 \<le> length_s (snake g)" "1 \<le> length_s (snake g)"
    "length_s (snake g) \<le> int (length (body (snake g)))"
    and mx: "max_length (snake g) = board_width cfg * board_height cfg"
    "int (length (body (snake g))) = max_length (snake g)"
    by (simp_all add: well_formed_def)
  from assms(7) mx have lt: "length_s (snake g) < int (length (body (snake g)))" by simp
  with len have n: "1 \<le> n" "n < length (body (snake g))" by (simp_all add: n_def)
  let ?g1 = "g\<lparr>snake := (snake g)\<lparr>body := moved_body p g, length_s := length_s (snake g) + 1\<rparr>,
                score := score g + 10\<rparr>"
  from move_to_regular [OF len(2,3) assms(5,2), of rnd k] assms(6)
  have m: "move_snake cfg rnd (g, k) = generate_food cfg rnd (?g1, k)"
    by (simp add: move_snake_passes [OF assms(3,4)])
  note ml = moved_body_length [OF len(2,3), of p]
  with lt len have a: "0 \<le> length_s (snake ?g1)"
    "length_s (snake ?g1) \<le> int (length (body (snake ?g1)))
       \<or> c_int (board_width cfg * board_height cfg) \<le> length_s (snake ?g1)"
    by auto
  from generate_food_frame [OF a, of rnd k]
  obtain g' k' where r: "generate_food cfg rnd (?g1, k) = Some (g', k')"
    and f: "g' = ?g1\<lparr>food := food g', game_over := game_over g'\<rparr>"
    and o1: "\<not> game_over g' \<longrightarrow> food g' \<notin> set (segments g')"
    by blast
  have b': "body (snake g') = moved_body p g"
    and l': "length_s (snake g') = length_s (snake g) + 1"
    by (subst f, simp)+
  have slot: "moved_body p g ! n = q"
  proof -
    from n ml have "moved_body p g ! n = drop n (moved_body p g) ! 0" by simp
    also have "\<dots> = drop n (body (snake g)) ! 0"
      using moved_body_drop [OF len(2,3) order_refl, of p] by (simp add: n_def)
    also have "\<dots> = q" using n assms(8) by (simp add: n_def)
    finally show ?thesis .
  qed
  have nl: "nat (length_s (snake g) + 1) = Suc n" using len by (simp add: n_def)
  have seg: "segments g' = p # butlast (segments g) @ [q]"
  proof -
    have "segments g' = take (Suc n) (moved_body p g)"
      by (simp add: segments_def b' l' nl)
    also have "\<dots> = take n (moved_body p g) @ [moved_body p g ! n]"
      using n ml by (simp add: take_Suc_conv_app_nth)
    also have "\<dots> = (p # butlast (segments g)) @ [q]"
      using moved_body_take [OF len(2,3), of p] slot by (simp add: n_def)
    finally show ?thesis by simp
  qed
  have fit: "length_s (snake g') \<le> int (length (body (snake g')))"
    using lt ml by (simp add: b' l')
  have c1: "body (snake g') ! nat (length_s (snake g)) = q"
    using slot by (simp add: b' n_def)
  have c2: "last (segments g') = q" by (simp add: seg)
  have c3: "draw_cell g' cfg cx cy =
         Some (if cx = -1 \<or> cx = board_width cfg \<or> cy = -1 \<or> cy = board_height cfg then Wall
               else if \<lparr>px = cx, py = cy\<rparr> = p then Snake_Head
               else if \<lparr>px = cx, py = cy\<rparr> \<in> set (butlast (segments g))
                       \<or> \<lparr>px = cx, py = cy\<rparr> = q then Snake_Body
               else if food g' = \<lparr>px = cx, py = cy\<rparr> then Food_Glyph
               else Empty_Cell)" for cx cy
  proof -
    let ?c = "\<lparr>px = cx, py = cy\<rparr>"
    have hdp: "(hd (segments g') = ?c) = (?c = p)" by (auto simp: seg)
    have mem: "(?c \<in> set (segments g'))
               = (?c = p \<or> ?c \<in> set (butlast (segments g)) \<or> ?c = q)"
      by (auto simp: seg)
    show ?thesis unfolding draw_cell_closed [OF fit] hdp mem by simp
  qed
  have inside: "\<not> (px t = -1 \<or> px t = board_width cfg \<or> py t = -1 \<or> py t = board_height cfg)"
    if "\<not> off_board cfg t" for t
    using that by (auto simp: off_board_def)
  have pt: "\<lparr>px = px t, py = py t\<rparr> = t" for t :: Point by simp
  have c3q: "draw_cell g' cfg (px q) (py q) = Some Snake_Body"
    if "\<not> off_board cfg q" "q \<noteq> p"
    unfolding c3 pt using inside [OF that(1)] that(2) by simp
  have c3t: "draw_cell g' cfg (px (last (segments g))) (py (last (segments g)))
           = Some (if food g' = last (segments g) then Food_Glyph else Empty_Cell)"
    if "\<not> off_board cfg (last (segments g))" "last (segments g) \<noteq> p"
      "last (segments g) \<notin> set (butlast (segments g))" "last (segments g) \<noteq> q"
    unfolding c3 pt using inside [OF that(1)] that(2,3,4) by simp
  have c4: "food g' \<noteq> q" if "\<not> game_over g'"
    using o1 that by (auto simp: seg)
  have c5: "move_snake cfg rnd (g', k') = Some (g'\<lparr>game_over := True\<rparr>, k')"
    if nh: "new_head cfg g' = Some q"
  proof -
    have "q \<in> set (tl (segments g'))" by (simp add: seg)
    from move_to_hit [OF fit this, of cfg rnd k'] show ?thesis
      by (simp add: move_snake_new_head nh)
  qed
  have c6: "q = mem (nat (length_s (snake g)))"
    if "init_game ws ow oh mem rnd cfg0 = Some (cfg, g0, k0)"
      and "main_loop cfg rnd sched
             \<lparr>game = g0, rand_calls = k0, last_render = 0, last_move = 0, stdin = []\<rparr>
           = Some (s, ds)"
      and "game s = g"
    for ws ow oh mem cfg0 g0 k0 sched s ds
    using reachable_uninitialised [OF that(1) assms(2) that(2)] lt len(1) assms(8)
    by (simp add: that(3))
  have mv: "move_snake cfg rnd (g, k) = Some (g', k')" using m r by simp
  show ?thesis
  proof (intro exI conjI)
    show "move_snake cfg rnd (g, k) = Some (g', k')" by (rule mv)
    show "length_s (snake g') = length_s (snake g) + 1" by (rule l')
    show "body (snake g') ! nat (length_s (snake g)) = q" by (rule c1)
    show "segments g' = p # butlast (segments g) @ [q]" by (rule seg)
    show "last (segments g') = q" by (rule c2)
    show "\<forall>cx cy. draw_cell g' cfg cx cy =
         Some (if cx = -1 \<or> cx = board_width cfg \<or> cy = -1 \<or> cy = board_height cfg then Wall
               else if \<lparr>px = cx, py = cy\<rparr> = p then Snake_Head
               else if \<lparr>px = cx, py = cy\<rparr> \<in> set (butlast (segments g))
                       \<or> \<lparr>px = cx, py = cy\<rparr> = q then Snake_Body
               else if food g' = \<lparr>px = cx, py = cy\<rparr> then Food_Glyph
               else Empty_Cell)" using c3 by blast
    show "\<not> off_board cfg q \<and> q \<noteq> p \<longrightarrow> draw_cell g' cfg (px q) (py q) = Some Snake_Body"
      using c3q by blast
    show "\<not> off_board cfg (last (segments g)) \<and> last (segments g) \<noteq> p \<and>
       last (segments g) \<notin> set (butlast (segments g)) \<and> last (segments g) \<noteq> q \<longrightarrow>
         draw_cell g' cfg (px (last (segments g))) (py (last (segments g)))
           = Some (if food g' = last (segments g) then Food_Glyph else Empty_Cell)"
      using c3t by blast
    show "\<not> game_over g' \<longrightarrow> food g' \<noteq> q" using c4 by blast
    show "new_head cfg g' = Some q \<longrightarrow>
         move_snake cfg rnd (g', k') = Some (g'\<lparr>game_over := True\<rparr>, k')" using c5 by blast
    show "\<forall>ws ow oh mem cfg0 g0 k0 sched s ds.
         init_game ws ow oh mem rnd cfg0 = Some (cfg, g0, k0) \<and>
         main_loop cfg rnd sched
           \<lparr>game = g0, rand_calls = k0, last_render = 0, last_move = 0, stdin = []\<rparr>
           = Some (s, ds) \<and>
         game s = g \<longrightarrow> q = mem (nat (length_s (snake g)))" using c6 by blast
  qed
qed


theorem regular_eat_exposes_unwritten_slot_witness:
  "well_formed row_cfg row \<and> game_mode row_cfg = MODE_REGULAR \<and>
   new_head row_cfg row = Some (food row) \<and>
   \<not> (\<not> wraparound_mode row_cfg \<and> off_board row_cfg (food row)) \<and>
   food row \<notin> set (tl (segments row)) \<and>
   length_s (snake row) < max_length (snake row) \<and>
   \<lparr>px = 0, py = 0\<rparr> = body (snake row) ! nat (length_s (snake row)) \<and>
   \<not> off_board row_cfg \<lparr>px = 0, py = 0\<rparr> \<and> \<lparr>px = 0, py = 0\<rparr> \<noteq> food row \<and>
   last (segments row) = \<lparr>px = 1, py = 0\<rparr> \<and>
   \<not> off_board row_cfg (last (segments row)) \<and> last (segments row) \<noteq> food row \<and>
   last (segments row) \<notin> set (butlast (segments row)) \<and>
   last (segments row) \<noteq> \<lparr>px = 0, py = 0\<rparr> \<and>
   init_game None 6 1 (\<lambda>i. \<lparr>px = 0, py = 0\<rparr>) (\<lambda>i. if i = 0 then 4 else 5) config
     = Some (row_cfg, row, 2) \<and>
   main_loop row_cfg (\<lambda>i. if i = 0 then 4 else 5) []
       \<lparr>game = row, rand_calls = 2, last_render = 0, last_move = 0, stdin = []\<rparr>
     = Some (\<lparr>game = row, rand_calls = 2, last_render = 0, last_move = 0, stdin = []\<rparr>, []) \<and>
   (\<exists>g'. move_snake row_cfg (\<lambda>i. if i = 0 then 4 else 5) (row, 2) = Some (g', 4) \<and>
      segments g' = [\<lparr>px = 4, py = 0\<rparr>, \<lparr>px = 3, py = 0\<rparr>, \<lparr>px = 2, py = 0\<rparr>, \<lparr>px = 0, py = 0\<rparr>] \<and>
      draw_cell g' row_cfg 0 0 = Some Snake_Body \<and>
      draw_cell g' row_cfg 1 0 = Some Empty_Cell \<and>
      draw_board g' row_cfg
        = Some \<lparr>shown_score = 10, shown_paused = False,
                 shown_cells =
                   [[Wall, Wall, Wall, Wall, Wall, Wall, Wall, Wall],
                    [Wall, Snake_Body, Empty_Cell, Snake_Body, Snake_Body, Snake_Head,
                     Food_Glyph, Wall],
                    [Wall, Wall, Wall, Wall, Wall, Wall, Wall, Wall]]\<rparr> \<and>
      \<not> game_over g' \<and> food g' = \<lparr>px = 5, py = 0\<rparr>)"
proof -
  let ?rnd = "\<lambda>i::nat. if i = 0 then 4 else (5::nat)"
  let ?q = "\<lparr>px = 0, py = 0\<rparr>"
  let ?g' = "row\<lparr>snake := (snake row)\<lparr>body := [\<lparr>px = 4, py = 0\<rparr>, \<lparr>px = 3, py = 0\<rparr>,
                 \<lparr>px = 2, py = 0\<rparr>, \<lparr>px = 0, py = 0\<rparr>, \<lparr>px = 0, py = 0\<rparr>, \<lparr>px = 0, py = 0\<rparr>],
                 length_s := 4\<rparr>, score := 10, food := \<lparr>px = 5, py = 0\<rparr>\<rparr>"
  have w: "well_formed row_cfg row"
    by (simp add: well_formed_def row_def row_cfg_def config_def)
  have m: "game_mode row_cfg = MODE_REGULAR" by (simp add: row_cfg_def config_def)
  have n: "new_head row_cfg row = Some (food row)"
    by (simp add: new_head_def row_def row_cfg_def config_def rd_def)
  have o: "\<not> (\<not> wraparound_mode row_cfg \<and> off_board row_cfg (food row))"
    by (simp add: off_board_def row_def row_cfg_def config_def)
  have t: "food row \<notin> set (tl (segments row))"
    by (simp add: segments_def row_def)
  have l: "length_s (snake row) < max_length (snake row)" by (simp add: row_def)
  have q: "?q = body (snake row) ! nat (length_s (snake row))" by (simp add: row_def)
  have b: "\<not> off_board row_cfg ?q" "?q \<noteq> food row"
    by (simp_all add: off_board_def row_cfg_def config_def row_def)
  have v: "last (segments row) = \<lparr>px = 1, py = 0\<rparr>"
    "\<not> off_board row_cfg (last (segments row))" "last (segments row) \<noteq> food row"
    "last (segments row) \<notin> set (butlast (segments row))" "last (segments row) \<noteq> ?q"
    by (simp_all add: segments_def off_board_def row_cfg_def config_def row_def)
  have i: "init_game None 6 1 (\<lambda>i. ?q) ?rnd config = Some (row_cfg, row, 2)"
    by code_simp
  have r: "main_loop row_cfg ?rnd []
       \<lparr>game = row, rand_calls = 2, last_render = 0, last_move = 0, stdin = []\<rparr>
     = Some (\<lparr>game = row, rand_calls = 2, last_render = 0, last_move = 0, stdin = []\<rparr>, [])"
    by simp
  have e: "move_snake row_cfg ?rnd (row, 2) = Some (?g', 4)"
    by code_simp
  have d: "draw_board ?g' row_cfg
        = Some \<lparr>shown_score = 10, shown_paused = False,
                 shown_cells =
                   [[Wall, Wall, Wall, Wall, Wall, Wall, Wall, Wall],
                    [Wall, Snake_Body, Empty_Cell, Snake_Body, Snake_Body, Snake_Head,
                     Food_Glyph, Wall],
                    [Wall, Wall, Wall, Wall, Wall, Wall, Wall, Wall]]\<rparr>"
    by code_simp
  have f: "\<not> game_over ?g'" "food ?g' = \<lparr>px = 5, py = 0\<rparr>" by (simp_all add: row_def)
  from regular_eat_exposes_unwritten_slot [OF w m n o t refl l q, of ?rnd 2]
  obtain g' k' where mv: "move_snake row_cfg ?rnd (row, 2) = Some (g', k')"
    and s1: "segments g' = food row # butlast (segments row) @ [?q]"
    and d2: "\<not> off_board row_cfg ?q \<and> ?q \<noteq> food row \<longrightarrow>
               draw_cell g' row_cfg (px ?q) (py ?q) = Some Snake_Body"
    and d3: "\<not> off_board row_cfg (last (segments row)) \<and> last (segments row) \<noteq> food row \<and>
       last (segments row) \<notin> set (butlast (segments row)) \<and> last (segments row) \<noteq> ?q \<longrightarrow>
         draw_cell g' row_cfg (px (last (segments row))) (py (last (segments row)))
           = Some (if food g' = last (segments row) then Food_Glyph else Empty_Cell)"
    by blast
  from mv e have g': "g' = ?g'" by simp
  note s0 = s1 [unfolded g'] and d0 = d2 [unfolded g'] and d1 = d3 [unfolded g']
  from s0 have s: "segments ?g' = [\<lparr>px = 4, py = 0\<rparr>, \<lparr>px = 3, py = 0\<rparr>, \<lparr>px = 2, py = 0\<rparr>, ?q]"
    by (simp add: segments_def row_def)
  from d0 b have dq: "draw_cell ?g' row_cfg 0 0 = Some Snake_Body" by simp
  from d1 v f have dt: "draw_cell ?g' row_cfg 1 0 = Some Empty_Cell" by simp
  have ex: "\<exists>g'. move_snake row_cfg ?rnd (row, 2) = Some (g', 4) \<and>
      segments g' = [\<lparr>px = 4, py = 0\<rparr>, \<lparr>px = 3, py = 0\<rparr>, \<lparr>px = 2, py = 0\<rparr>, \<lparr>px = 0, py = 0\<rparr>] \<and>
      draw_cell g' row_cfg 0 0 = Some Snake_Body \<and>
      draw_cell g' row_cfg 1 0 = Some Empty_Cell \<and>
      draw_board g' row_cfg
        = Some \<lparr>shown_score = 10, shown_paused = False,
                 shown_cells =
                   [[Wall, Wall, Wall, Wall, Wall, Wall, Wall, Wall],
                    [Wall, Snake_Body, Empty_Cell, Snake_Body, Snake_Body, Snake_Head,
                     Food_Glyph, Wall],
                    [Wall, Wall, Wall, Wall, Wall, Wall, Wall, Wall]]\<rparr> \<and>
      \<not> game_over g' \<and> food g' = \<lparr>px = 5, py = 0\<rparr>"
    by (rule exI [of _ ?g'], intro conjI) (rule e s dq dt d f)+
  show ?thesis
    by (intro conjI) (rule w m n o t l q b v i r ex)+
qed

end
